theory Spec2Isabelle
  imports Complex_Main "HOL-Library.Sublist" "HOL-Library.Log_Nat"
begin

section \<open>Strings\<close>

text \<open>
  A Python \<open>str\<close> is modelled as a \<^typ>\<open>string\<close> holding its UTF-8 bytes. The program only
  concatenates, compares, strips and splits text, and every character it looks for (\<open>%\<close>,
  \<open>.\<close>, the path separators, the newline) is ASCII, so byte strings behave as the Python
  strings do. The fixed Russian messages of the source are given by their bytes.
\<close>

definition msg_stopped :: string where
  \<comment> \<open>the line logged when the loop finds the cancellation flag set (source line 68)\<close>
  "msg_stopped =
    [CHR 0xD0, CHR 0x97, CHR 0xD0, CHR 0xB0, CHR 0xD0, CHR 0xB3, CHR 0xD1, CHR 0x80, CHR 0xD1,
     CHR 0x83, CHR 0xD0, CHR 0xB7, CHR 0xD0, CHR 0xBA, CHR 0xD0, CHR 0xB0, CHR 0x20, CHR 0xD0,
     CHR 0xBE, CHR 0xD1, CHR 0x81, CHR 0xD1, CHR 0x82, CHR 0xD0, CHR 0xB0, CHR 0xD0, CHR 0xBD,
     CHR 0xD0, CHR 0xBE, CHR 0xD0, CHR 0xB2, CHR 0xD0, CHR 0xBB, CHR 0xD0, CHR 0xB5, CHR 0xD0,
     CHR 0xBD, CHR 0xD0, CHR 0xB0, CHR 0x20, CHR 0xD0, CHR 0xBF, CHR 0xD0, CHR 0xBE, CHR 0xD0,
     CHR 0xBB, CHR 0xD1, CHR 0x8C, CHR 0xD0, CHR 0xB7, CHR 0xD0, CHR 0xBE, CHR 0xD0, CHR 0xB2,
     CHR 0xD0, CHR 0xB0, CHR 0xD1, CHR 0x82, CHR 0xD0, CHR 0xB5, CHR 0xD0, CHR 0xBB, CHR 0xD0,
     CHR 0xB5, CHR 0xD0, CHR 0xBC, CHR 0x2E]"

definition msg_processing :: string where
  \<comment> \<open>the prefix of the line logged when an item starts (source line 71)\<close>
  "msg_processing =
    [CHR 0xD0, CHR 0x9E, CHR 0xD0, CHR 0xB1, CHR 0xD1, CHR 0x80, CHR 0xD0, CHR 0xB0, CHR 0xD0,
     CHR 0xB1, CHR 0xD0, CHR 0xBE, CHR 0xD1, CHR 0x82, CHR 0xD0, CHR 0xBA, CHR 0xD0, CHR 0xB0,
     CHR 0x20, CHR 0xD1, CHR 0x81, CHR 0xD1, CHR 0x81, CHR 0xD1, CHR 0x8B, CHR 0xD0, CHR 0xBB,
     CHR 0xD0, CHR 0xBA, CHR 0xD0, CHR 0xB8, CHR 0x3A, CHR 0x20]"

definition msg_error :: string where
  \<comment> \<open>the prefix of the line logged for a caught exception (source line 75)\<close>
  "msg_error =
    [CHR 0xD0, CHR 0x9E, CHR 0xD1, CHR 0x88, CHR 0xD0, CHR 0xB8, CHR 0xD0, CHR 0xB1, CHR 0xD0,
     CHR 0xBA, CHR 0xD0, CHR 0xB0, CHR 0x3A, CHR 0x20]"

definition msg_no_ffmpeg :: string where
  \<comment> \<open>the result returned when no ffmpeg is on the PATH (source line 88)\<close>
  "msg_no_ffmpeg =
    [CHR 0x66, CHR 0x66, CHR 0x6D, CHR 0x70, CHR 0x65, CHR 0x67, CHR 0x20, CHR 0xD0, CHR 0xBD,
     CHR 0xD0, CHR 0xB5, CHR 0x20, CHR 0xD0, CHR 0xBD, CHR 0xD0, CHR 0xB0, CHR 0xD0, CHR 0xB9,
     CHR 0xD0, CHR 0xB4, CHR 0xD0, CHR 0xB5, CHR 0xD0, CHR 0xBD, CHR 0x2E, CHR 0x20, CHR 0xD0,
     CHR 0xA3, CHR 0xD1, CHR 0x81, CHR 0xD1, CHR 0x82, CHR 0xD0, CHR 0xB0, CHR 0xD0, CHR 0xBD,
     CHR 0xD0, CHR 0xBE, CHR 0xD0, CHR 0xB2, CHR 0xD0, CHR 0xB8, CHR 0xD1, CHR 0x82, CHR 0xD0,
     CHR 0xB5, CHR 0x20, CHR 0x66, CHR 0x66, CHR 0x6D, CHR 0x70, CHR 0x65, CHR 0x67, CHR 0x20,
     CHR 0xD0, CHR 0xB4, CHR 0xD0, CHR 0xBB, CHR 0xD1, CHR 0x8F, CHR 0x20, CHR 0xD0, CHR 0xBF,
     CHR 0xD1, CHR 0x80, CHR 0xD0, CHR 0xBE, CHR 0xD0, CHR 0xB4, CHR 0xD0, CHR 0xBE, CHR 0xD0,
     CHR 0xBB, CHR 0xD0, CHR 0xB6, CHR 0xD0, CHR 0xB5, CHR 0xD0, CHR 0xBD, CHR 0xD0, CHR 0xB8,
     CHR 0xD1, CHR 0x8F, CHR 0x2E]"

definition msg_undetermined :: string where
  \<comment> \<open>the result for an entry without requested downloads (source line 128)\<close>
  "msg_undetermined =
    [CHR 0xD0, CHR 0x9D, CHR 0xD0, CHR 0xB5, CHR 0x20, CHR 0xD1, CHR 0x83, CHR 0xD0, CHR 0xB4,
     CHR 0xD0, CHR 0xB0, CHR 0xD0, CHR 0xBB, CHR 0xD0, CHR 0xBE, CHR 0xD1, CHR 0x81, CHR 0xD1,
     CHR 0x8C, CHR 0x20, CHR 0xD0, CHR 0xBE, CHR 0xD0, CHR 0xBF, CHR 0xD1, CHR 0x80, CHR 0xD0,
     CHR 0xB5, CHR 0xD0, CHR 0xB4, CHR 0xD0, CHR 0xB5, CHR 0xD0, CHR 0xBB, CHR 0xD0, CHR 0xB8,
     CHR 0xD1, CHR 0x82, CHR 0xD1, CHR 0x8C, CHR 0x20, CHR 0xD1, CHR 0x81, CHR 0xD0, CHR 0xBA,
     CHR 0xD0, CHR 0xB0, CHR 0xD1, CHR 0x87, CHR 0xD0, CHR 0xB0, CHR 0xD0, CHR 0xBD, CHR 0xD0,
     CHR 0xBD, CHR 0xD1, CHR 0x8B, CHR 0xD0, CHR 0xB9, CHR 0x20, CHR 0xD1, CHR 0x84, CHR 0xD0,
     CHR 0xB0, CHR 0xD0, CHR 0xB9, CHR 0xD0, CHR 0xBB, CHR 0x20, CHR 0xD0, CHR 0xB4, CHR 0xD0,
     CHR 0xBB, CHR 0xD1, CHR 0x8F, CHR 0x20, CHR 0xD0, CHR 0xBE, CHR 0xD0, CHR 0xB4, CHR 0xD0,
     CHR 0xBD, CHR 0xD0, CHR 0xBE, CHR 0xD0, CHR 0xB9, CHR 0x20, CHR 0xD0, CHR 0xB8, CHR 0xD0,
     CHR 0xB7, CHR 0x20, CHR 0xD0, CHR 0xB7, CHR 0xD0, CHR 0xB0, CHR 0xD0, CHR 0xBF, CHR 0xD0,
     CHR 0xB8, CHR 0xD1, CHR 0x81, CHR 0xD0, CHR 0xB5, CHR 0xD0, CHR 0xB9, CHR 0x2E]"

definition msg_not_downloaded :: string where
  \<comment> \<open>the prefix of the result for a missing file (source line 132)\<close>
  "msg_not_downloaded =
    [CHR 0xD0, CHR 0xA4, CHR 0xD0, CHR 0xB0, CHR 0xD0, CHR 0xB9, CHR 0xD0, CHR 0xBB, CHR 0x20,
     CHR 0xD0, CHR 0xBD, CHR 0xD0, CHR 0xB5, CHR 0x20, CHR 0xD0, CHR 0xB1, CHR 0xD1, CHR 0x8B,
     CHR 0xD0, CHR 0xBB, CHR 0x20, CHR 0xD1, CHR 0x81, CHR 0xD0, CHR 0xBA, CHR 0xD0, CHR 0xB0,
     CHR 0xD1, CHR 0x87, CHR 0xD0, CHR 0xB0, CHR 0xD0, CHR 0xBD, CHR 0x3A, CHR 0x20]"

definition msg_done :: string where
  \<comment> \<open>the prefix of the result for a processed file (source line 150)\<close>
  "msg_done =
    [CHR 0xD0, CHR 0x93, CHR 0xD0, CHR 0xBE, CHR 0xD1, CHR 0x82, CHR 0xD0, CHR 0xBE, CHR 0xD0,
     CHR 0xB2, CHR 0xD0, CHR 0xBE, CHR 0x3A, CHR 0x20]"

definition msg_ffmpeg_failed :: string where
  \<comment> \<open>the line logged by the constructor when the bundled ffmpeg does not run (source line 38)\<close>
  "msg_ffmpeg_failed =
    [CHR 0xD0, CHR 0x9D, CHR 0xD0, CHR 0xB5, CHR 0x20, CHR 0xD1, CHR 0x83, CHR 0xD0, CHR 0xB4,
     CHR 0xD0, CHR 0xB0, CHR 0xD0, CHR 0xBB, CHR 0xD0, CHR 0xBE, CHR 0xD1, CHR 0x81, CHR 0xD1,
     CHR 0x8C, CHR 0x20, CHR 0xD0, CHR 0xB7, CHR 0xD0, CHR 0xB0, CHR 0xD0, CHR 0xBF, CHR 0xD1,
     CHR 0x83, CHR 0xD1, CHR 0x81, CHR 0xD1, CHR 0x82, CHR 0xD0, CHR 0xB8, CHR 0xD1, CHR 0x82,
     CHR 0xD1, CHR 0x8C, CHR 0x20, CHR 0x66, CHR 0x66, CHR 0x6D, CHR 0x70, CHR 0x65, CHR 0x67,
     CHR 0x2E, CHR 0x20, CHR 0xD0, CHR 0x9F, CHR 0xD1, CHR 0x80, CHR 0xD0, CHR 0xBE, CHR 0xD0,
     CHR 0xB2, CHR 0xD0, CHR 0xB5, CHR 0xD1, CHR 0x80, CHR 0xD1, CHR 0x8C, CHR 0xD1, CHR 0x82,
     CHR 0xD0, CHR 0xB5, CHR 0x2C, CHR 0x20, CHR 0xD1, CHR 0x87, CHR 0xD1, CHR 0x82, CHR 0xD0,
     CHR 0xBE, CHR 0x20, CHR 0xD1, CHR 0x84, CHR 0xD0, CHR 0xB0, CHR 0xD0, CHR 0xB9, CHR 0xD0,
     CHR 0xBB, CHR 0x20, CHR 0x66, CHR 0x66, CHR 0x6D, CHR 0x70, CHR 0x65, CHR 0x67, CHR 0x2E,
     CHR 0x65, CHR 0x78, CHR 0x65, CHR 0x20, CHR 0xD0, CHR 0xB4, CHR 0xD0, CHR 0xBE, CHR 0xD1,
     CHR 0x81, CHR 0xD1, CHR 0x82, CHR 0xD1, CHR 0x83, CHR 0xD0, CHR 0xBF, CHR 0xD0, CHR 0xB5,
     CHR 0xD0, CHR 0xBD, CHR 0x2E]"

definition msg_ffmpeg_found :: string where
  \<comment> \<open>the prefix of the line logged by the constructor when the bundled ffmpeg runs (source line 40)\<close>
  "msg_ffmpeg_found =
    [CHR 0x66, CHR 0x66, CHR 0x6D, CHR 0x70, CHR 0x65, CHR 0x67, CHR 0x20, CHR 0xD0, CHR 0xBE,
     CHR 0xD0, CHR 0xB1, CHR 0xD0, CHR 0xBD, CHR 0xD0, CHR 0xB0, CHR 0xD1, CHR 0x80, CHR 0xD1,
     CHR 0x83, CHR 0xD0, CHR 0xB6, CHR 0xD0, CHR 0xB5, CHR 0xD0, CHR 0xBD, CHR 0x3A, CHR 0x20]"

text \<open>\<open>sep.join(xs)\<close>\<close>

fun py_join :: "string \<Rightarrow> string list \<Rightarrow> string" where
  "py_join sep [] = []"
| "py_join sep [x] = x"
| "py_join sep (x # y # ys) = x @ sep @ py_join sep (y # ys)"

text \<open>\<open>s.split(sep)\<close> for a one-character separator: the pieces between the separators.\<close>

fun py_split :: "char \<Rightarrow> string \<Rightarrow> string list" where
  "py_split c [] = [[]]"
| "py_split c (x # xs) =
     (if x = c then [] # py_split c xs
      else (case py_split c xs of [] \<Rightarrow> [[x]] | p # ps \<Rightarrow> (x # p) # ps))"

text \<open>\<open>s.replace(c, '')\<close> for a one-character \<open>c\<close>.\<close>

definition remove_char :: "char \<Rightarrow> string \<Rightarrow> string" where
  "remove_char c s = filter (\<lambda>x. x \<noteq> c) s"

text \<open>
  The characters \<open>str.strip()\<close> removes are those for which \<open>str.isspace\<close> holds: U+0009 to
  U+000D, U+001C to U+0020, U+0085, U+00A0, U+1680, U+2000 to U+200A, U+2028, U+2029, U+202F,
  U+205F and U+3000, listed here by their UTF-8 encodings.
\<close>

definition py_whitespace :: "string list" where
  "py_whitespace =
     map (\<lambda>c. [c])
       [CHR 0x09, CHR 0x0A, CHR 0x0B, CHR 0x0C, CHR 0x0D, CHR 0x1C, CHR 0x1D, CHR 0x1E, CHR 0x1F,
        CHR 0x20]
     @ [[CHR 0xC2, CHR 0x85], [CHR 0xC2, CHR 0xA0], [CHR 0xE1, CHR 0x9A, CHR 0x80]]
     @ map (\<lambda>c. [CHR 0xE2, CHR 0x80, c])
       [CHR 0x80, CHR 0x81, CHR 0x82, CHR 0x83, CHR 0x84, CHR 0x85, CHR 0x86, CHR 0x87, CHR 0x88,
        CHR 0x89, CHR 0x8A, CHR 0xA8, CHR 0xA9, CHR 0xAF]
     @ [[CHR 0xE2, CHR 0x81, CHR 0x9F], [CHR 0xE3, CHR 0x80, CHR 0x80]]"

function strip_leading :: "string list \<Rightarrow> string \<Rightarrow> string" where
  "strip_leading ws s =
     (case find (\<lambda>w. w \<noteq> [] \<and> prefix w s) ws of
        None \<Rightarrow> s
      | Some w \<Rightarrow> strip_leading ws (drop (length w) s))"
  by pat_completeness auto
termination
  by (relation "measure (\<lambda>(ws, s). length s)") (auto simp: find_Some_iff prefix_def)

definition lstrip :: "string \<Rightarrow> string" where
  "lstrip s = strip_leading py_whitespace s"

definition rstrip :: "string \<Rightarrow> string" where
  "rstrip s = rev (strip_leading (map rev py_whitespace) (rev s))"

definition strip :: "string \<Rightarrow> string" where
  "strip s = rstrip (lstrip s)"

text \<open>
  \<open>os.path.splitext\<close>, as \<open>genericpath._splitext\<close> computes it: the extension starts at the
  last dot of the last path component, unless that component has only dots before it. The
  separators are \<open>/\<close> for \<open>posixpath\<close> and \<open>\\\<close> and \<open>/\<close> for \<open>ntpath\<close>.
\<close>

fun rfind :: "(char \<Rightarrow> bool) \<Rightarrow> string \<Rightarrow> nat option" where
  "rfind P [] = None"
| "rfind P (x # xs) =
     (case rfind P xs of
        Some i \<Rightarrow> Some (Suc i)
      | None \<Rightarrow> if P x then Some 0 else None)"

definition splitext :: "char list \<Rightarrow> string \<Rightarrow> string \<times> string" where
  "splitext seps p =
     (let filenameIndex = (case rfind (\<lambda>c. c \<in> set seps) p of None \<Rightarrow> 0 | Some i \<Rightarrow> Suc i)
      in case rfind (\<lambda>c. c = CHR ''.'') p of
           None \<Rightarrow> (p, [])
         | Some dotIndex \<Rightarrow>
             if filenameIndex \<le> dotIndex
                \<and> (\<exists>c \<in> set (drop filenameIndex (take dotIndex p)). c \<noteq> CHR ''.'')
             then (take dotIndex p, drop dotIndex p)
             else (p, []))"

text \<open>
  The first element of \<open>s.splitlines()\<close> for a non-empty \<open>s\<close>: the text before the first
  line boundary (\<open>\\n\<close>, \<open>\\r\<close>, \<open>\\v\<close>, \<open>\\f\<close>, U+001C to U+001E, U+0085, U+2028, U+2029).
\<close>

fun first_line :: "string \<Rightarrow> string" where
  "first_line [] = []"
| "first_line (c # cs) =
     (if c \<in> {CHR 0x0A, CHR 0x0B, CHR 0x0C, CHR 0x0D, CHR 0x1C, CHR 0x1D, CHR 0x1E}
         \<or> prefix [CHR 0xC2, CHR 0x85] (c # cs)
         \<or> prefix [CHR 0xE2, CHR 0x80, CHR 0xA8] (c # cs)
         \<or> prefix [CHR 0xE2, CHR 0x80, CHR 0xA9] (c # cs)
      then [] else c # first_line cs)"

section \<open>Values, exceptions and the recorded actions\<close>

text \<open>
  Exceptions are values. \<open>KeyError\<close> comes from a subscript on a dict, \<open>IndexError\<close> from a
  subscript on a list, \<open>ZeroDivisionError\<close> from the division in the progress computation,
  and \<open>Raised m\<close> is any other instance of \<open>Exception\<close> raised by an external call, with
  \<open>m\<close> its \<open>str()\<close>.
\<close>

datatype pyexn = KeyError string | IndexError | ZeroDivisionError | Raised string

fun str_exn :: "pyexn \<Rightarrow> string" where
  "str_exn (KeyError k) = [CHR 0x27] @ k @ [CHR 0x27]"
| "str_exn IndexError = ''list index out of range''"
| "str_exn ZeroDivisionError = ''division by zero''"
| "str_exn (Raised m) = m"

text \<open>
  A Python float is an IEEE 754 binary64 number: a finite value, given by the real number it
  denotes, an infinity or a NaN.
\<close>

datatype pyfloat = Float_val real | Float_inf | Float_neg_inf | Float_nan

text \<open>
  Float arithmetic rounds the exact result to the nearest binary64 number, ties going to the
  even significand. \<open>binade x\<close> is the exponent \<open>e\<close> with \<open>2\<^sup>e \<le> x < 2\<^sup>e\<^sup>+\<^sup>1\<close> for a positive
  \<open>x\<close>; a binary64 number of that binade is a multiple of \<open>2\<^sup>e\<^sup>-\<^sup>5\<^sup>2\<close>. The exponent range is
  not bounded here: \<open>round_double\<close> is the binary64 rounding for the normal range, from
  \<open>2\<^sup>-\<^sup>1\<^sup>0\<^sup>2\<^sup>2\<close> up to the overflow threshold, which holds every value the program computes
  (quotients between \<open>1 / n\<close> and 1 for a list of \<open>n\<close> URLs, and their products with 100).
  Python's \<open>int / int\<close> is the correctly rounded quotient, and \<open>float * int\<close> the
  rounded product with the integer converted, exactly for 100.
\<close>

definition pow2 :: "int \<Rightarrow> real" where
  "pow2 k = (if 0 \<le> k then 2 ^ nat k else 1 / 2 ^ nat (- k))"

definition round_ties_even :: "real \<Rightarrow> int" where
  "round_ties_even x =
     (let f = \<lfloor>x\<rfloor>; d = x - of_int f
      in if d < 1/2 then f else if 1/2 < d then f + 1 else if even f then f else f + 1)"

definition binade :: "real \<Rightarrow> int" where
  "binade x =
     (if 1 \<le> x then int (floorlog 2 (nat \<lfloor>x\<rfloor>)) - 1
      else - int (floorlog 2 (nat (\<lceil>1 / x\<rceil> - 1))))"

definition round_double :: "real \<Rightarrow> real" where
  "round_double x =
     (if x = 0 then 0
      else sgn x * of_int (round_ties_even (\<bar>x\<bar> * pow2 (52 - binade \<bar>x\<bar>)))
             * pow2 (binade \<bar>x\<bar> - 52))"

text \<open>
  The dictionaries yt_dlp hands over. Of an info dictionary the program reads \<open>_type\<close>,
  \<open>entries\<close> and \<open>requested_downloads\<close>; \<open>None\<close> stands for an absent key.
\<close>

type_synonym hook_dict = "string \<rightharpoonup> string"

datatype info_dict = Info_dict
  (type_field: "string option")
  (entries_field: "info_dict list option")
  (requested_downloads: "(string \<rightharpoonup> string) list option")
  (other_fields: "(string \<times> string) list")

record ydl_opts =
  format :: string
  outtmpl :: string
  postprocessors :: "(string \<times> string) list list"
  ffmpeg_location :: string
  writethumbnail :: bool
  no_color :: bool

text \<open>
  What a run does is recorded as a list of actions, in the order they happen: the calls of the
  three callbacks, the reads of the cancellation flag, and the calls of the external tools. A
  progress call carries the place it is made from: the worker loop or the progress hook.
\<close>

datatype site = Loop | Hook

datatype event =
    Log string
  | Progress site pyfloat
  | Completion
  | Is_set bool
  | Extract_info ydl_opts string
  | Convert_thumbnail string
  | Add_metadata string info_dict "string option"
  | Remove string
  | Makedirs string
  | Subprocess_run "string list"

section \<open>The environment\<close>

text \<open>
  The file system is the set of paths that exist. Everything outside the source file is a
  parameter: \<open>shutil.which\<close>, \<open>YoutubeDL.extract_info\<close> (giving the dictionaries it passes to
  the progress hooks and its outcome), the two functions of the \<open>metadata\<close> module (which is
  not part of the source file), the
  builtin \<open>float\<close> on strings (\<open>None\<close> where it raises \<open>ValueError\<close>, the only exception it
  raises on a string), the platform's path separators and \<open>os.path.join\<close>, and what the
  constructor consults: \<open>sys._MEIPASS\<close> when the attribute exists, the directory of the
  module, \<open>os.makedirs\<close> and \<open>subprocess.run\<close> (giving the return code and the captured
  output), and \<open>os.remove\<close>, which can fail on a path that exists (a directory, a file in
  use). Each external call may change the file system and may raise. \<open>extract_info\<close>
  stands for the whole \<open>with yt_dlp.YoutubeDL(ydl_opts) as ydl\<close> block up to the return of
  \<open>ydl.extract_info(url, download=True)\<close>. The result of \<open>add_metadata\<close> is given by its
  \<open>str()\<close>, which is all the program uses of it; \<open>convert_thumbnail\<close> may return \<open>None\<close>.
\<close>

type_synonym fs = "string set"

record world =
  which :: "string \<Rightarrow> string option"
  extract_info :: "ydl_opts \<Rightarrow> string \<Rightarrow> fs \<Rightarrow> hook_dict list \<times> (pyexn + info_dict) \<times> fs"
  convert_thumbnail :: "string \<Rightarrow> fs \<Rightarrow> (pyexn + string option) \<times> fs"
  os_remove :: "string \<Rightarrow> fs \<Rightarrow> (pyexn + unit) \<times> fs"
  add_metadata :: "string \<Rightarrow> info_dict \<Rightarrow> string option \<Rightarrow> fs \<Rightarrow> (pyexn + string) \<times> fs"
  py_float :: "string \<Rightarrow> pyfloat option"
  path_seps :: "char list"
  os_path_join :: "string \<Rightarrow> string \<Rightarrow> string"
  sys_meipass :: "string option"
  module_dir :: string
  os_makedirs :: "string \<Rightarrow> fs \<Rightarrow> (pyexn + unit) \<times> fs"
  subprocess_run :: "string list \<Rightarrow> fs \<Rightarrow> (pyexn + int \<times> string) \<times> fs"

text \<open>
  A computation takes the file system and gives the actions it performed, its result or the
  exception it raised, and the file system it leaves.
\<close>

type_synonym 'a io = "fs \<Rightarrow> event list \<times> (pyexn + 'a) \<times> fs"

definition return_io :: "'a \<Rightarrow> 'a io" where
  "return_io x fs = ([], Inr x, fs)"

definition raise_io :: "pyexn \<Rightarrow> 'a io" where
  "raise_io e fs = ([], Inl e, fs)"

definition bind_io :: "'a io \<Rightarrow> ('a \<Rightarrow> 'b io) \<Rightarrow> 'b io" where
  "bind_io m k fs =
     (case m fs of
        (evs, Inl e, fs') \<Rightarrow> (evs, Inl e, fs')
      | (evs, Inr x, fs') \<Rightarrow> (case k x fs' of (evs', r, fs'') \<Rightarrow> (evs @ evs', r, fs'')))"

definition external :: "event \<Rightarrow> (fs \<Rightarrow> (pyexn + 'a) \<times> fs) \<Rightarrow> 'a io" where
  "external ev f fs = (case f fs of (r, fs') \<Rightarrow> ([ev], r, fs'))"

definition log_callback :: "string \<Rightarrow> unit io" where
  "log_callback s fs = ([Log s], Inr (), fs)"

definition os_path_exists :: "string \<Rightarrow> bool io" where
  "os_path_exists p fs = ([], Inr (p \<in> fs), fs)"

section \<open>The Downloader\<close>

text \<open>
  The fields of a \<open>Downloader\<close> object. The two callbacks are not fields of the model: their
  calls are recorded as \<^const>\<open>Log\<close> and \<^const>\<open>Progress\<close> actions, and they return.
  \<open>stop_event\<close> is the flag of the \<open>threading.Event\<close>.
\<close>

record downloader =
  download_folder :: string
  stop_event :: bool
  ffmpeg_path :: string
  ffprobe_path :: string

subsection \<open>\<open>__init__\<close>\<close>

definition init :: "world \<Rightarrow> string \<Rightarrow> downloader io" where
  "init w folder =
     bind_io (external (Makedirs folder) (os_makedirs w folder)) (\<lambda>_.
       let base_path = (case sys_meipass w of
                          Some p \<Rightarrow> p
                        | None \<Rightarrow> os_path_join w (module_dir w) ''bin'');
           ffmpeg = os_path_join w base_path ''ffmpeg.exe'';
           ffprobe = os_path_join w base_path ''ffprobe.exe''
       in
       bind_io (external (Subprocess_run [ffmpeg, ''-version''])
                  (subprocess_run w [ffmpeg, ''-version''])) (\<lambda>(returncode, stdout).
       bind_io (if returncode \<noteq> 0 then log_callback msg_ffmpeg_failed
                else if stdout = [] then raise_io IndexError
                else log_callback (msg_ffmpeg_found @ first_line stdout)) (\<lambda>_.
       return_io \<lparr> download_folder = folder, stop_event = False,
                   ffmpeg_path = ffmpeg, ffprobe_path = ffprobe \<rparr>)))"

subsection \<open>\<open>_progress_hook\<close>\<close>

definition progress_hook :: "world \<Rightarrow> hook_dict \<Rightarrow> pyexn + event list" where
  "progress_hook w d =
     (case d ''status'' of
        None \<Rightarrow> Inl (KeyError ''status'')
      | Some status \<Rightarrow>
          if status = ''downloading'' then
            (let p_str = strip (case d ''_percent_str'' of None \<Rightarrow> ''0%'' | Some v \<Rightarrow> v);
                 p_val = (case py_float w (remove_char CHR ''%'' p_str) of
                            Some v \<Rightarrow> v
                          | None \<Rightarrow> Float_val 0)
             in Inr [Progress Hook p_val])
          else Inr [])"

subsection \<open>\<open>_ffmpeg_available\<close>\<close>

definition ffmpeg_available :: "world \<Rightarrow> bool" where
  "ffmpeg_available w = (which w ''ffmpeg'' \<noteq> None)"

subsection \<open>\<open>_process_single_entry\<close>\<close>

text \<open>
  The removal of the temporary thumbnail files (source lines 145 to 148): the converted
  thumbnail when there is one and it exists, then the \<open>.webp\<close> file when it exists. An
  exception of \<open>os.remove\<close> leaves \<open>_process_single_entry\<close>.
\<close>

definition remove_temporaries :: "world \<Rightarrow> string option \<Rightarrow> string \<Rightarrow> unit io" where
  "remove_temporaries w thumbnail_path webp_thumbnail =
     bind_io (case thumbnail_path of
                None \<Rightarrow> return_io ()
              | Some t \<Rightarrow>
                  if t = [] then return_io ()
                  else bind_io (os_path_exists t) (\<lambda>ex.
                         if ex then external (Remove t) (os_remove w t)
                         else return_io ())) (\<lambda>_.
     bind_io (os_path_exists webp_thumbnail) (\<lambda>ex.
       if ex then external (Remove webp_thumbnail) (os_remove w webp_thumbnail)
       else return_io ()))"

definition process_single_entry :: "world \<Rightarrow> info_dict \<Rightarrow> string io" where
  "process_single_entry w info =
     (case (case requested_downloads info of None \<Rightarrow> [] | Some ds \<Rightarrow> ds) of
        [] \<Rightarrow> return_io msg_undetermined
      | d # _ \<Rightarrow>
         (case d ''filepath'' of
            None \<Rightarrow> raise_io (KeyError ''filepath'')
          | Some downloaded_path \<Rightarrow>
              bind_io (os_path_exists downloaded_path) (\<lambda>downloaded.
              if \<not> downloaded then return_io (msg_not_downloaded @ downloaded_path)
              else
                let base_name = fst (splitext (path_seps w) downloaded_path);
                    webp_thumbnail = base_name @ ''.webp''
                in
                bind_io (os_path_exists webp_thumbnail) (\<lambda>has_webp.
                bind_io (if has_webp
                         then external (Convert_thumbnail webp_thumbnail)
                                (convert_thumbnail w webp_thumbnail)
                         else return_io None) (\<lambda>thumbnail_path.
                bind_io (external (Add_metadata downloaded_path info thumbnail_path)
                           (add_metadata w downloaded_path info thumbnail_path)) (\<lambda>meta_result.
                bind_io (remove_temporaries w thumbnail_path webp_thumbnail) (\<lambda>_.
                return_io (msg_done @ downloaded_path @ ''. '' @ meta_result))))))))"

subsection \<open>\<open>download_audio\<close>\<close>

text \<open>
  The loop over the entries of a playlist, collecting \<open>result_messages\<close>; an exception of
  \<open>_process_single_entry\<close> leaves the loop and \<open>download_audio\<close>.
\<close>

fun process_entries :: "world \<Rightarrow> info_dict list \<Rightarrow> string list \<Rightarrow> string list io" where
  "process_entries w [] result_messages = return_io result_messages"
| "process_entries w (entry # rest) result_messages =
     bind_io (process_single_entry w entry) (\<lambda>msg.
       process_entries w rest (result_messages @ [msg]))"

text \<open>
  The options dictionary, without its \<open>progress_hooks\<close> entry, which \<open>ydl_extract_info\<close>
  below accounts for. The three-argument \<open>os.path.join\<close> is two applications of the
  two-argument one.
\<close>

definition make_ydl_opts :: "world \<Rightarrow> downloader \<Rightarrow> ydl_opts" where
  "make_ydl_opts w self =
     \<lparr> format = ''bestaudio/best'',
       outtmpl = os_path_join w (os_path_join w (download_folder self) ''%(playlist_title)s'')
                   ''%(title)s.%(ext)s'',
       postprocessors = [[(''key'', ''FFmpegExtractAudio''), (''preferredcodec'', ''mp3''),
                          (''preferredquality'', ''192'')]],
       ffmpeg_location = ffmpeg_path self,
       writethumbnail = True,
       no_color = True \<rparr>"

text \<open>
  \<open>ydl.extract_info(url, download=True)\<close> with \<open>progress_hooks = [self._progress_hook]\<close>:
  yt_dlp calls the hook on each of its progress dictionaries; an exception of the hook leaves
  \<open>extract_info\<close> as it is, since yt_dlp installs no handler around its hooks.
\<close>

fun run_hooks :: "world \<Rightarrow> hook_dict list \<Rightarrow> event list \<times> pyexn option" where
  "run_hooks w [] = ([], None)"
| "run_hooks w (d # ds) =
     (case progress_hook w d of
        Inl e \<Rightarrow> ([], Some e)
      | Inr evs \<Rightarrow> (case run_hooks w ds of (evs', r) \<Rightarrow> (evs @ evs', r)))"

definition ydl_extract_info :: "world \<Rightarrow> ydl_opts \<Rightarrow> string \<Rightarrow> info_dict io" where
  "ydl_extract_info w opts url fs =
     (case extract_info w opts url fs of
        (hooks, res, fs') \<Rightarrow>
          (case run_hooks w hooks of
             (evs, Some e) \<Rightarrow> (Extract_info opts url # evs, Inl e, fs')
           | (evs, None) \<Rightarrow> (Extract_info opts url # evs, res, fs')))"

definition download_audio :: "world \<Rightarrow> downloader \<Rightarrow> string \<Rightarrow> string io" where
  "download_audio w self url =
     (if \<not> ffmpeg_available w then return_io msg_no_ffmpeg
      else
        bind_io (ydl_extract_info w (make_ydl_opts w self) url) (\<lambda>info.
          if type_field info = Some ''playlist'' then
            bind_io (process_entries w
                       (case entries_field info of None \<Rightarrow> [] | Some es \<Rightarrow> es) [])
              (\<lambda>result_messages. return_io (py_join [CHR 0x0A] result_messages))
          else process_single_entry w info))"

subsection \<open>\<open>stop_download\<close> and the worker\<close>

definition stop_download :: "downloader \<Rightarrow> downloader" where
  "stop_download self = self\<lparr>stop_event := True\<rparr>"

text \<open>
  The worker runs on its own thread while another thread may call \<open>stop_download\<close>. A run of
  the worker is a sequence of actions, numbered from 0 in the order the worker performs them;
  \<open>stop_at = Some t\<close> says that \<open>stop_download\<close> is called when the worker has performed
  \<open>t\<close> actions (before its action number \<open>t\<close>), and \<open>None\<close> that it is not called during
  the run. Further calls would change nothing, since the flag stays set until the next
  \<open>start_download\<close>. A run state holds the object, the file system and the actions performed
  so far. The worker reads the flag in \<open>is_set\<close> only; \<open>download_audio\<close> never does, so its
  actions are computed first and then performed one by one, the other thread's call falling
  between any two of them.
\<close>

record run =
  obj :: downloader
  files :: fs
  trace :: "event list"

definition poll :: "nat option \<Rightarrow> run \<Rightarrow> run" where
  "poll stop_at r =
     (if stop_at = Some (length (trace r)) then r\<lparr>obj := stop_download (obj r)\<rparr> else r)"

definition perform :: "nat option \<Rightarrow> event \<Rightarrow> run \<Rightarrow> run" where
  "perform stop_at ev r = (let r' = poll stop_at r in r'\<lparr>trace := trace r' @ [ev]\<rparr>)"

definition is_set :: "nat option \<Rightarrow> run \<Rightarrow> bool \<times> run" where
  "is_set stop_at r =
     (let r' = poll stop_at r; b = stop_event (obj r')
      in (b, r'\<lparr>trace := trace r' @ [Is_set b]\<rparr>))"

fun perform_all :: "nat option \<Rightarrow> event list \<Rightarrow> run \<Rightarrow> run" where
  "perform_all stop_at [] r = r"
| "perform_all stop_at (ev # evs) r = perform_all stop_at evs (perform stop_at ev r)"

text \<open>
  The loop of \<open>_download_all\<close> over \<open>enumerate(url_list)\<close>, from index \<open>idx\<close> on. The division
  of the progress computation raises for a zero divisor, outside the \<open>try\<close>; the quotient
  and the product are floats.
\<close>

fun download_loop ::
  "world \<Rightarrow> nat option \<Rightarrow> nat \<Rightarrow> nat \<Rightarrow> string list \<Rightarrow> run \<Rightarrow> pyexn + run" where
  "download_loop w stop_at ntotal idx [] r = Inr r"
| "download_loop w stop_at ntotal idx (url # rest) r =
     (case is_set stop_at r of
        (True, r1) \<Rightarrow> Inr (perform stop_at (Log msg_stopped) r1)
      | (False, r1) \<Rightarrow>
          (let r2 = perform stop_at (Log (msg_processing @ url)) r1
           in case download_audio w (obj r2) url (files r2) of
                (evs, res, fs') \<Rightarrow>
                  (let r3 = (perform_all stop_at evs r2)\<lparr>files := fs'\<rparr>;
                       r4 = (case res of
                               Inr result \<Rightarrow> perform stop_at (Log result) r3
                             | Inl e \<Rightarrow> perform stop_at (Log (msg_error @ str_exn e)) r3)
                   in if ntotal = 0 then Inl ZeroDivisionError
                      else download_loop w stop_at ntotal (Suc idx) rest
                             (perform stop_at
                                (Progress Loop
                                   (Float_val
                                      (round_double
                                         (round_double (real (idx + 1) / real ntotal) * 100))))
                                r4))))"

definition download_all ::
  "world \<Rightarrow> nat option \<Rightarrow> downloader \<Rightarrow> fs \<Rightarrow> string list \<Rightarrow> pyexn + run" where
  "download_all w stop_at self fs url_list =
     (let ntotal = length url_list
      in case download_loop w stop_at ntotal 0 url_list \<lparr>obj = self, files = fs, trace = []\<rparr> of
           Inl e \<Rightarrow> Inl e
         | Inr r \<Rightarrow> Inr (perform stop_at Completion r))"

text \<open>
  \<open>start_download\<close> clears the flag and starts the worker thread; the model gives the run
  of that thread.
\<close>

definition start_download ::
  "world \<Rightarrow> nat option \<Rightarrow> downloader \<Rightarrow> fs \<Rightarrow> string list \<Rightarrow> pyexn + run" where
  "start_download w stop_at self fs url_list =
     download_all w stop_at (self\<lparr>stop_event := False\<rparr>) fs url_list"

section \<open>What a run is expected to look like\<close>

text \<open>
  The actions of one item that passes the check of the flag: the check, the line announcing
  the URL, the actions of \<open>download_audio\<close>, the line with its result or its error, and the
  progress call. \<open>item_blocks\<close> lists these blocks for a whole URL list, each item starting in
  the file system the previous one left.
\<close>

definition result_line :: "pyexn + string \<Rightarrow> string" where
  "result_line res = (case res of Inr result \<Rightarrow> result | Inl e \<Rightarrow> msg_error @ str_exn e)"

definition percent :: "nat \<Rightarrow> nat \<Rightarrow> real" where
  "percent idx ntotal = round_double (round_double (real (idx + 1) / real ntotal) * 100)"

definition item_block :: "nat \<Rightarrow> nat \<Rightarrow> string \<Rightarrow> event list \<Rightarrow> pyexn + string \<Rightarrow> event list" where
  "item_block ntotal idx url evs res =
     [Is_set False, Log (msg_processing @ url)] @ evs
     @ [Log (result_line res), Progress Loop (Float_val (percent idx ntotal))]"

fun item_blocks ::
  "world \<Rightarrow> downloader \<Rightarrow> nat \<Rightarrow> nat \<Rightarrow> string list \<Rightarrow> fs \<Rightarrow> event list list" where
  "item_blocks w self ntotal idx [] fs = []"
| "item_blocks w self ntotal idx (url # rest) fs =
     (case download_audio w self url fs of
        (evs, res, fs') \<Rightarrow>
          item_block ntotal idx url evs res # item_blocks w self ntotal (Suc idx) rest fs')"

text \<open>
  The outcomes of \<open>download_audio\<close> for the URLs of a list, in order, each in the file system
  the previous one left.
\<close>

fun outcomes :: "world \<Rightarrow> downloader \<Rightarrow> string list \<Rightarrow> fs \<Rightarrow> (pyexn + string) list" where
  "outcomes w self [] fs = []"
| "outcomes w self (url # rest) fs =
     (case download_audio w self url fs of
        (evs, res, fs') \<Rightarrow> res # outcomes w self rest fs')"

text \<open>
  Whether a check made as action number \<open>c\<close> finds the flag set, for a run that started with
  the flag at \<open>flag0\<close>; and the number of leading blocks whose check finds it clear, the first
  block starting at action number \<open>c\<close>.
\<close>

definition seen :: "bool \<Rightarrow> nat option \<Rightarrow> nat \<Rightarrow> bool" where
  "seen flag0 stop_at c = (flag0 \<or> (case stop_at of None \<Rightarrow> False | Some t \<Rightarrow> t \<le> c))"

fun processed :: "bool \<Rightarrow> nat option \<Rightarrow> nat \<Rightarrow> event list list \<Rightarrow> nat" where
  "processed flag0 stop_at c [] = 0"
| "processed flag0 stop_at c (b # bs) =
     (if seen flag0 stop_at c then 0 else Suc (processed flag0 stop_at (c + length b) bs))"

text \<open>Projections of a list of actions.\<close>

fun loop_progress :: "event list \<Rightarrow> pyfloat list" where
  "loop_progress [] = []"
| "loop_progress (Progress Loop p # evs) = p # loop_progress evs"
| "loop_progress (_ # evs) = loop_progress evs"

fun logs :: "event list \<Rightarrow> string list" where
  "logs [] = []"
| "logs (Log s # evs) = s # logs evs"
| "logs (_ # evs) = logs evs"

fun checks :: "event list \<Rightarrow> bool list" where
  "checks [] = []"
| "checks (Is_set b # evs) = b # checks evs"
| "checks (_ # evs) = checks evs"

text \<open>The actions \<open>download_audio\<close> can perform: calls of the external tools and of the hook.\<close>

fun inner :: "event \<Rightarrow> bool" where
  "inner (Progress Hook _) = True"
| "inner (Extract_info _ _) = True"
| "inner (Convert_thumbnail _) = True"
| "inner (Add_metadata _ _ _) = True"
| "inner (Remove _) = True"
| "inner _ = False"

definition flag_before :: "bool \<Rightarrow> nat option \<Rightarrow> nat \<Rightarrow> bool" where
  \<comment> \<open>the flag when the worker has performed \<open>c\<close> actions\<close>
  "flag_before flag0 stop_at c = (flag0 \<or> (case stop_at of None \<Rightarrow> False | Some t \<Rightarrow> t < c))"

definition tracks :: "bool \<Rightarrow> nat option \<Rightarrow> downloader \<Rightarrow> run \<Rightarrow> bool" where
  \<comment> \<open>the loop invariant: the object is the initial one, up to the flag\<close>
  "tracks flag0 stop_at self r =
     (obj r = self\<lparr>stop_event := flag_before flag0 stop_at (length (trace r))\<rparr>)"

definition ending :: "nat \<Rightarrow> nat \<Rightarrow> event list" where
  \<comment> \<open>what follows the blocks of the \<open>k\<close> processed items of \<open>n\<close>\<close>
  "ending k n = (if k < n then [Is_set True, Log msg_stopped] else [])"

definition inner_io :: "'a io \<Rightarrow> bool" where
  "inner_io m = (\<forall>fs. \<forall>e \<in> set (fst (m fs)). inner e)"

fun metadata_calls :: "event list \<Rightarrow> (string \<times> info_dict \<times> string option) list" where
  "metadata_calls [] = []"
| "metadata_calls (Add_metadata p info t # evs) = (p, info, t) # metadata_calls evs"
| "metadata_calls (_ # evs) = metadata_calls evs"

text \<open>
  The messages \<open>_process_single_entry\<close> returns for the entries of a playlist, in order, each
  entry processed in the file system the previous one left, with the actions performed.
\<close>

inductive entries_yield ::
  "world \<Rightarrow> info_dict list \<Rightarrow> fs \<Rightarrow> event list \<Rightarrow> string list \<Rightarrow> fs \<Rightarrow> bool" where
  yield_Nil: "entries_yield w [] fs [] [] fs"
| yield_Cons:
    "process_single_entry w entry fs = (evs, Inr msg, fs1) \<Longrightarrow>
     entries_yield w rest fs1 evs' msgs fs2 \<Longrightarrow>
     entries_yield w (entry # rest) fs (evs @ evs') (msg # msgs) fs2"

code_pred entries_yield .

text \<open>
  The exception of the first entry whose \<open>_process_single_entry\<close> raises, the entries
  before it having returned their messages, with the actions performed up to there.
\<close>

inductive entries_raise ::
  "world \<Rightarrow> info_dict list \<Rightarrow> fs \<Rightarrow> event list \<Rightarrow> pyexn \<Rightarrow> fs \<Rightarrow> bool" where
  raise_here:
    "process_single_entry w entry fs = (evs, Inl e, fs1) \<Longrightarrow>
     entries_raise w (entry # rest) fs evs e fs1"
| raise_later:
    "process_single_entry w entry fs = (evs, Inr msg, fs1) \<Longrightarrow>
     entries_raise w rest fs1 evs' e fs2 \<Longrightarrow>
     entries_raise w (entry # rest) fs (evs @ evs') e fs2"

code_pred entries_raise .

section \<open>A small environment to run the model in\<close>

definition example_video :: "string \<Rightarrow> info_dict" where
  "example_video name =
     Info_dict None None (Some [[''filepath'' \<mapsto> name @ ''.mp3'']]) [(''title'', name)]"

definition example_world :: world where
  "example_world =
     \<lparr> which = (\<lambda>name. if name = ''ffmpeg'' then Some ''/usr/bin/ffmpeg'' else None),
       extract_info = (\<lambda>opts url fs.
         if url = ''video'' then
           ([[''status'' \<mapsto> ''downloading'', ''_percent_str'' \<mapsto> '' 50.0%''],
             [''status'' \<mapsto> ''finished'']],
            Inr (example_video ''a''), fs \<union> {''a.mp3'', ''a.webp''})
         else if url = ''list'' then
           ([], Inr (Info_dict (Some ''playlist'')
                       (Some [example_video ''b'', example_video ''c'']) None []),
            fs \<union> {''b.mp3'', ''c.mp3''})
         else ([], Inl (Raised ''unavailable''), fs)),
       convert_thumbnail = (\<lambda>p fs. (Inr (Some (p @ ''.jpg'')), insert (p @ ''.jpg'') fs)),
       os_remove = (\<lambda>p fs. (Inr (), fs - {p})),
       add_metadata = (\<lambda>p info t fs. (Inr ''tagged'', fs)),
       py_float = (\<lambda>s. if s = ''0'' then Some (Float_val 0)
                        else if s = ''50.0'' then Some (Float_val 50) else None),
       path_seps = ''/'',
       os_path_join = (\<lambda>a b. a @ ''/'' @ b),
       sys_meipass = None,
       module_dir = ''app'',
       os_makedirs = (\<lambda>p fs. (Inr (), fs)),
       subprocess_run = (\<lambda>args fs. (Inr (0, ''ffmpeg version 6.0'' @ [CHR 0x0A] @ ''built''), fs)) \<rparr>"

definition example_world_no_path :: world where
  \<comment> \<open>the same environment with no ffmpeg on the PATH\<close>
  "example_world_no_path = example_world\<lparr>which := (\<lambda>name. None)\<rparr>"

definition example_world_bad_thumbnail :: world where
  \<comment> \<open>the same environment with a thumbnail converter that raises\<close>
  "example_world_bad_thumbnail =
     example_world\<lparr>convert_thumbnail :=
       (\<lambda>p fs. (Inl (Raised ''cannot identify image file''), fs))\<rparr>"

definition example_world_bad_tags :: world where
  \<comment> \<open>the same environment with a tagger that raises for the file \<open>c.mp3\<close>\<close>
  "example_world_bad_tags =
     example_world\<lparr>add_metadata :=
       (\<lambda>p info t fs. if p = ''c.mp3'' then (Inl (Raised ''cannot write tags''), fs)
                       else (Inr ''tagged'', fs))\<rparr>"

definition example_self :: downloader where
  "example_self =
     \<lparr> download_folder = ''out'', stop_event = False,
       ffmpeg_path = ''bin/ffmpeg.exe'', ffprobe_path = ''bin/ffprobe.exe'' \<rparr>"

section \<open>Rounding to binary64\<close>

lemma fl1: "floorlog 2 (Suc 0) = 1"
  by code_simp

lemma fl2: "floorlog 2 2 = 2"
  by code_simp

lemma fl100: "floorlog 2 100 = 7"
  by code_simp

lemma fl50: "floorlog 2 50 = 6"
  by code_simp

lemma rd_third: "round_double (1/3) = 6004799503160661 / 2^54"
  by (simp add: round_double_def binade_def fl2 round_ties_even_def pow2_def Let_def)

lemma rd_half: "round_double (1/2) = 1/2"
  by (simp add: round_double_def binade_def fl1 round_ties_even_def pow2_def Let_def)

lemma rd_one: "round_double 1 = 1"
  by (simp add: round_double_def binade_def fl1 round_ties_even_def pow2_def Let_def)

lemma rd_100: "round_double 100 = 100"
  by (simp add: round_double_def binade_def fl100 round_ties_even_def pow2_def Let_def)

lemma rd_50: "round_double 50 = 50"
  by (simp add: round_double_def binade_def fl50 round_ties_even_def pow2_def Let_def)

lemma rd_top: "round_double ((2^54 - 1) / 2^54) = 1"
  by (simp add: round_double_def binade_def fl1 round_ties_even_def pow2_def Let_def)


lemma pow2_powi: "pow2 k = 2 powi k"
  by (simp add: pow2_def power_int_def power_inverse inverse_eq_divide power_one_over)

lemma pow2_pos [simp]: "0 < pow2 k"
  by (simp add: pow2_def)

lemma pow2_add: "pow2 (a + b) = pow2 a * pow2 b"
  by (simp add: pow2_powi power_int_add)

lemma pow2_nat: "pow2 (int k) = 2 ^ k"
  by (simp add: pow2_def)

lemma pow2_neg: "pow2 (- int k) = 1 / 2 ^ k"
  by (simp add: pow2_def)


lemma binade_ge1:
  assumes "1 \<le> x"
  shows "pow2 (binade x) \<le> x \<and> x < pow2 (binade x + 1)"
proof -
  define N where "N = nat \<lfloor>x\<rfloor>"
  define k where "k = floorlog 2 N"
  from assms have "1 \<le> \<lfloor>x\<rfloor>" by linarith
  then have N: "0 < N" by (simp add: N_def)
  have two: "(1::nat) < 2" by simp
  from floorlog_bounds [OF N two] have lo: "2 ^ (k - 1) \<le> N" and hi: "N < 2 ^ k"
    unfolding k_def by blast+
  from N hi have k: "0 < k" by (cases k) auto
  from assms have b: "binade x = int k - 1"
    by (simp add: binade_def k_def N_def)
  from k have b': "int k - 1 = int (k - 1)" by simp
  from assms have "0 \<le> \<lfloor>x\<rfloor>" by linarith
  then have rN: "real N = of_int \<lfloor>x\<rfloor>"
    unfolding N_def by (rule of_nat_nat)
  have Nx: "real N \<le> x" unfolding rN by (rule of_int_floor_le)
  have xN: "x < real N + 1" unfolding rN by linarith
  from lo have "real (2 ^ (k - 1)) \<le> real N"
    by (simp only: of_nat_le_iff)
  then have "(2::real) ^ (k - 1) \<le> real N"
    by simp
  with Nx have 1: "pow2 (binade x) \<le> x"
    unfolding b b' pow2_nat by linarith
  from hi have "N + 1 \<le> 2 ^ k" by simp
  then have "real (N + 1) \<le> real (2 ^ k)"
    by (simp only: of_nat_le_iff)
  then have "real N + 1 \<le> 2 ^ k"
    by simp
  with xN have "x < 2 ^ k" by linarith
  moreover have "pow2 (binade x + 1) = 2 ^ k"
    unfolding b using pow2_nat [of k] by simp
  ultimately have 2: "x < pow2 (binade x + 1)" by simp
  from 1 2 show ?thesis ..
qed


lemma binade_lt1:
  assumes "0 < x" and "x < 1"
  shows "pow2 (binade x) \<le> x \<and> x < pow2 (binade x + 1)"
proof -
  define y where "y = 1 / x"
  define M where "M = nat (\<lceil>y\<rceil> - 1)"
  define k where "k = floorlog 2 M"
  from assms have y1: "1 < y" by (simp add: y_def)
  from assms have xy: "x * y = 1" by (simp add: y_def)
  from y1 have c2: "2 \<le> \<lceil>y\<rceil>" by linarith
  then have M: "0 < M" by (simp add: M_def)
  have two: "(1::nat) < 2" by simp
  from floorlog_bounds [OF M two] have lo: "2 ^ (k - 1) \<le> M" and hi: "M < 2 ^ k"
    unfolding k_def by blast+
  from M hi have k: "0 < k" by (cases k) auto
  from assms have b: "binade x = - int k"
    by (simp add: binade_def k_def M_def y_def)
  from c2 have "0 \<le> \<lceil>y\<rceil> - 1" by simp
  then have "real M = of_int (\<lceil>y\<rceil> - 1)"
    unfolding M_def by (rule of_nat_nat)
  then have Mc: "real M = of_int \<lceil>y\<rceil> - 1" by simp
  have yM: "y \<le> real M + 1" unfolding Mc by linarith
  have My: "real M < y" unfolding Mc by linarith
  from hi have "M + 1 \<le> 2 ^ k" by simp
  then have "real (M + 1) \<le> real (2 ^ k)"
    by (simp only: of_nat_le_iff)
  then have "real M + 1 \<le> 2 ^ k"
    by simp
  with yM have yk: "y \<le> 2 ^ k" by linarith
  have "x * y \<le> x * 2 ^ k"
    using yk assms(1) by (simp only: mult_le_cancel_left_pos)
  then have "1 \<le> x * 2 ^ k" by (simp only: xy)
  then have "1 / 2 ^ k \<le> x"
    by (simp add: divide_le_eq)
  then have 1: "pow2 (binade x) \<le> x"
    unfolding b pow2_neg .
  from lo have "real (2 ^ (k - 1)) \<le> real M"
    by (simp only: of_nat_le_iff)
  then have "(2::real) ^ (k - 1) \<le> real M"
    by simp
  with My have ky: "2 ^ (k - 1) < y" by linarith
  have "x * 2 ^ (k - 1) < x * y"
    using ky assms(1) by (simp only: mult_less_cancel_left_pos)
  then have "x * 2 ^ (k - 1) < 1" by (simp only: xy)
  then have lt: "x < 1 / 2 ^ (k - 1)"
    by (simp add: less_divide_eq)
  from k have "- int k + 1 = - int (k - 1)" by simp
  then have "pow2 (binade x + 1) = 1 / 2 ^ (k - 1)"
    unfolding b by (simp only: pow2_neg)
  with lt have 2: "x < pow2 (binade x + 1)" by simp
  from 1 2 show ?thesis ..
qed

lemma binade_bounds:
  assumes "0 < x"
  shows "pow2 (binade x) \<le> x" and "x < pow2 (binade x + 1)"
  using binade_ge1 [of x] binade_lt1 [OF assms] by (cases "1 \<le> x"; simp)+


lemma round_ties_even_error: "\<bar>of_int (round_ties_even m) - m\<bar> \<le> 1 / 2"
proof -
  have "of_int \<lfloor>m\<rfloor> \<le> m" and "m < of_int \<lfloor>m\<rfloor> + 1"
    by linarith+
  then show ?thesis
    unfolding round_ties_even_def Let_def by (simp add: abs_le_iff)
qed

lemma round_double_pos_eq:
  assumes "0 < x"
  shows "round_double x
         = of_int (round_ties_even (x * pow2 (52 - binade x))) * pow2 (binade x - 52)"
  using assms by (simp add: round_double_def)

lemma round_double_error:
  assumes "0 < x"
  shows "\<bar>round_double x - x\<bar> \<le> x / 2 ^ 53"
proof -
  define e where "e = binade x"
  define m where "m = x * pow2 (52 - e)"
  define s where "s = pow2 (e - 52)"
  have s: "0 < s" by (simp add: s_def)
  have "pow2 (52 - e) * pow2 (e - 52) = pow2 0"
    using pow2_add [of "52 - e" "e - 52"] by simp
  then have inv: "pow2 (52 - e) * s = 1"
    by (simp add: s_def pow2_def)
  have mx: "m * s = x"
    unfolding m_def using inv by (simp add: mult.assoc)
  have rd: "round_double x = of_int (round_ties_even m) * s"
    using round_double_pos_eq [OF assms] by (simp add: e_def m_def s_def)
  have "round_double x - x = (of_int (round_ties_even m) - m) * s"
    unfolding rd using mx by (simp add: left_diff_distrib)
  then have "\<bar>round_double x - x\<bar> = \<bar>(of_int (round_ties_even m) - m) * s\<bar>"
    by (rule arg_cong)
  also have "\<dots> = \<bar>of_int (round_ties_even m) - m\<bar> * s"
    by (simp only: abs_mult abs_of_pos [OF s])
  also have "\<dots> \<le> 1 / 2 * s"
    using round_ties_even_error [of m] s by (simp only: mult_le_cancel_right_pos)
  finally have bound: "\<bar>round_double x - x\<bar> \<le> 1 / 2 * s" .
  have "pow2 e = s * pow2 52"
    using pow2_add [of "e - 52" 52] by (simp add: s_def)
  then have "pow2 e = s * 2 ^ 52"
    by (simp add: pow2_def)
  then have "1 / 2 * s = pow2 e / 2 ^ 53"
    by simp
  also have "\<dots> \<le> x / 2 ^ 53"
    using binade_bounds(1) [OF assms] by (simp add: e_def divide_right_mono)
  finally have "1 / 2 * s \<le> x / 2 ^ 53" .
  with bound show ?thesis by linarith
qed


lemma percent_last:
  assumes "0 < n"
  shows "percent (n - 1) n = 100"
proof -
  from assms have "real (n - 1 + 1) / real n = 1"
    by simp
  then show ?thesis
    unfolding percent_def by (simp only: rd_one rd_100 mult_1)
qed

lemma percent_strict:
  assumes n: "n \<le> 2 ^ 50" and ij: "i < j" and jn: "j < n"
  shows "percent i n < percent j n"
proof -
  define a where "a = real (i + 1) / real n"
  define b where "b = real (j + 1) / real n"
  define qa where "qa = round_double a"
  define qb where "qb = round_double b"
  have p53: "(2::real) ^ 53 = 9007199254740992" by simp
  have p50: "(2::real) ^ 50 = 1125899906842624" by simp
  from ij jn have npos: "0 < real n" by simp
  have a0: "0 < a"
    unfolding a_def using npos by simp
  have b1: "b \<le> 1"
    unfolding b_def using jn npos by (simp add: divide_le_eq)
  from n have "real n \<le> real (2 ^ 50)"
    by (simp only: of_nat_le_iff)
  then have "real n \<le> 2 ^ 50"
    by simp
  then have gap: "1 / 2 ^ 50 \<le> 1 / real n"
    using npos by (simp add: frac_le)
  have "real (i + 1) + 1 \<le> real (j + 1)"
    using ij by simp
  then have "(real (i + 1) + 1) / real n \<le> real (j + 1) / real n"
    using npos by (simp only: divide_le_cancel) simp
  then have ab: "a + 1 / real n \<le> b"
    unfolding a_def b_def by (simp add: add_divide_distrib)
  from npos have "0 < 1 / real n"
    by simp
  with a0 ab have b0: "0 < b"
    by linarith
  have ea: "\<bar>qa - a\<bar> \<le> a / 2 ^ 53"
    unfolding qa_def by (rule round_double_error [OF a0])
  have eb: "\<bar>qb - b\<bar> \<le> b / 2 ^ 53"
    unfolding qb_def by (rule round_double_error [OF b0])
  from ea a0 have qa0: "0 < qa * 100"
    unfolding p53 by linarith
  from eb b0 have qb0: "0 < qb * 100"
    unfolding p53 by linarith
  have pa: "\<bar>round_double (qa * 100) - qa * 100\<bar> \<le> qa * 100 / 2 ^ 53"
    by (rule round_double_error [OF qa0])
  have pb: "\<bar>round_double (qb * 100) - qb * 100\<bar> \<le> qb * 100 / 2 ^ 53"
    by (rule round_double_error [OF qb0])
  have "round_double (qa * 100) < round_double (qb * 100)"
    using ea eb pa pb gap ab a0 b1 unfolding p53 p50 by linarith
  then show ?thesis
    by (simp add: percent_def a_def b_def qa_def qb_def)
qed

section \<open>The actions of \<open>download_audio\<close>\<close>


lemma inner_return [simp]: "inner_io (return_io x)"
  by (simp add: inner_io_def return_io_def)

lemma inner_raise [simp]: "inner_io (raise_io e)"
  by (simp add: inner_io_def raise_io_def)

lemma inner_exists [simp]: "inner_io (os_path_exists p)"
  by (simp add: inner_io_def os_path_exists_def)

lemma inner_external: "inner ev \<Longrightarrow> inner_io (external ev f)"
  by (simp add: inner_io_def external_def split: prod.splits)

lemma inner_bind: "inner_io m \<Longrightarrow> (\<And>x. inner_io (k x)) \<Longrightarrow> inner_io (bind_io m k)"
proof (unfold inner_io_def, intro allI ballI)
  fix fs e
  assume m: "\<forall>fs. \<forall>e\<in>set (fst (m fs)). inner e"
    and k: "\<And>x. \<forall>fs. \<forall>e\<in>set (fst (k x fs)). inner e"
    and e: "e \<in> set (fst (bind_io m k fs))"
  obtain evs r fs' where mfs: "m fs = (evs, r, fs')"
    by (cases "m fs") auto
  from m mfs have evs: "\<forall>e\<in>set evs. inner e"
    by (metis fst_conv)
  show "inner e"
  proof (cases r)
    case (Inl x)
    with e mfs evs show ?thesis by (simp add: bind_io_def)
  next
    case (Inr x)
    obtain evs' r' fs'' where kx: "k x fs' = (evs', r', fs'')"
      by (cases "k x fs'") auto
    from k kx have "\<forall>e\<in>set evs'. inner e"
      by (metis fst_conv)
    with e mfs evs Inr kx show ?thesis by (auto simp: bind_io_def)
  qed
qed

lemma inner_process_single_entry: "inner_io (process_single_entry w info)"
  unfolding process_single_entry_def remove_temporaries_def Let_def
  by (auto intro!: inner_bind inner_external split: list.splits option.splits)

lemma inner_process_entries: "inner_io (process_entries w es acc)"
  by (induction es arbitrary: acc) (auto intro!: inner_bind inner_process_single_entry)

lemma run_hooks_inner: "run_hooks w ds = (evs, r) \<Longrightarrow> e \<in> set evs \<Longrightarrow> inner e"
  by (induction ds arbitrary: evs r)
     (auto simp: progress_hook_def Let_def split: sum.splits prod.splits option.splits if_splits)

lemma inner_ydl_extract_info: "inner_io (ydl_extract_info w opts url)"
  unfolding inner_io_def ydl_extract_info_def
  by (auto split: prod.splits option.splits dest: run_hooks_inner)

lemma inner_download_audio: "inner_io (download_audio w self url)"
  unfolding download_audio_def
  by (auto intro!: inner_bind inner_process_single_entry inner_process_entries inner_ydl_extract_info)

lemma download_audio_inner:
  "download_audio w self url fs = (evs, res, fs') \<Longrightarrow> e \<in> set evs \<Longrightarrow> inner e"
  using inner_download_audio [of w self url] unfolding inner_io_def by (metis fst_conv)

lemma download_audio_flag:
  "download_audio w (self\<lparr>stop_event := b\<rparr>) url = download_audio w self url"
  by (simp add: download_audio_def make_ydl_opts_def)

section \<open>The shape of a run of the worker\<close>


lemma perform_trace [simp]: "trace (perform sa ev r) = trace r @ [ev]"
  by (simp add: perform_def poll_def Let_def)

lemma perform_files [simp]: "files (perform sa ev r) = files r"
  by (simp add: perform_def poll_def Let_def)

lemma perform_tracks: "tracks f sa self r \<Longrightarrow> tracks f sa self (perform sa ev r)"
  by (cases sa)
     (auto simp: tracks_def perform_def poll_def Let_def stop_download_def flag_before_def
        less_Suc_eq)

lemma perform_all_trace [simp]: "trace (perform_all sa evs r) = trace r @ evs"
  by (induction evs arbitrary: r) simp_all

lemma perform_all_files [simp]: "files (perform_all sa evs r) = files r"
  by (induction evs arbitrary: r) simp_all

lemma perform_all_tracks: "tracks f sa self r \<Longrightarrow> tracks f sa self (perform_all sa evs r)"
  by (induction evs arbitrary: r) (simp_all add: perform_tracks)

lemma files_update_tracks: "tracks f sa self r \<Longrightarrow> tracks f sa self (r\<lparr>files := fs\<rparr>)"
  by (simp add: tracks_def)

lemma is_set_tracks:
  assumes "tracks f sa self r"
  shows "fst (is_set sa r) = seen f sa (length (trace r))"
    and "trace (snd (is_set sa r)) = trace r @ [Is_set (seen f sa (length (trace r)))]"
    and "files (snd (is_set sa r)) = files r"
    and "tracks f sa self (snd (is_set sa r))"
  using assms
  by (cases sa;
      auto simp: tracks_def is_set_def poll_def Let_def stop_download_def flag_before_def seen_def
        less_Suc_eq le_less)+

lemma tracks_download_audio:
  "tracks f sa self r \<Longrightarrow> download_audio w (obj r) url = download_audio w self url"
  by (simp add: tracks_def download_audio_flag)

lemma download_loop_trace:
  assumes "tracks f sa self r" and "urls \<noteq> [] \<longrightarrow> 0 < ntotal"
  shows "\<exists>r'. download_loop w sa ntotal idx urls r = Inr r'
           \<and> tracks f sa self r'
           \<and> trace r' =
               trace r
               @ concat (take (processed f sa (length (trace r))
                                 (item_blocks w self ntotal idx urls (files r)))
                           (item_blocks w self ntotal idx urls (files r)))
               @ ending (processed f sa (length (trace r))
                           (item_blocks w self ntotal idx urls (files r)))
                   (length urls)"
  using assms
proof (induction urls arbitrary: r idx)
  case Nil
  then show ?case by (simp add: ending_def)
next
  case (Cons url rest)
  let ?c = "length (trace r)"
  obtain b r1 where chk: "is_set sa r = (b, r1)"
    by (cases "is_set sa r") auto
  from is_set_tracks [OF Cons.prems(1)] chk
  have b: "b = seen f sa ?c"
    and tr1: "trace r1 = trace r @ [Is_set b]"
    and fs1: "files r1 = files r"
    and t1: "tracks f sa self r1"
    by simp_all
  obtain evs res fs' where da: "download_audio w self url (files r) = (evs, res, fs')"
    by (cases "download_audio w self url (files r)") auto
  show ?case
  proof (cases b)
    case True
    with chk b tr1 t1 da show ?thesis
      by (simp add: ending_def perform_tracks)
  next
    case False
    define r2 where "r2 = perform sa (Log (msg_processing @ url)) r1"
    define r3 where "r3 = (perform_all sa evs r2)\<lparr>files := fs'\<rparr>"
    define r4 where "r4 = perform sa (Log (result_line res)) r3"
    define r5 where "r5 = perform sa (Progress Loop (Float_val (percent idx ntotal))) r4"
    have t2: "tracks f sa self r2"
      by (simp add: r2_def t1 perform_tracks)
    have da2: "download_audio w (obj r2) url (files r2) = (evs, res, fs')"
      using tracks_download_audio [OF t2] da fs1 by (simp add: r2_def)
    have t5: "tracks f sa self r5"
      by (simp add: r5_def r4_def r3_def t2 perform_tracks perform_all_tracks files_update_tracks)
    have tr5: "trace r5 = trace r @ item_block ntotal idx url evs res"
      by (simp add: r5_def r4_def r3_def r2_def tr1 False item_block_def)
    have fs5: "files r5 = fs'"
      by (simp add: r5_def r4_def r3_def)
    have pos: "0 < ntotal" using Cons.prems(2) by simp
    have step: "download_loop w sa ntotal idx (url # rest) r
                = download_loop w sa ntotal (Suc idx) rest r5"
      using chk False da2 pos
      unfolding r5_def r4_def r3_def r2_def
      by (cases res) (simp_all add: Let_def result_line_def percent_def)
    from Cons.IH [OF t5, of "Suc idx"] pos
    obtain r' where r': "download_loop w sa ntotal (Suc idx) rest r5 = Inr r'"
      "tracks f sa self r'"
      "trace r' = trace r5
         @ concat (take (processed f sa (length (trace r5))
                           (item_blocks w self ntotal (Suc idx) rest (files r5)))
                     (item_blocks w self ntotal (Suc idx) rest (files r5)))
         @ ending (processed f sa (length (trace r5))
                     (item_blocks w self ntotal (Suc idx) rest (files r5)))
             (length rest)"
      by auto
    from False b have ns: "\<not> seen f sa ?c" by simp
    show ?thesis
      using step r' ns da tr5 fs5
      by (simp add: ending_def)
  qed
qed

lemma download_all_trace:
  "\<exists>r. download_all w sa self fs urls = Inr r
     \<and> tracks (stop_event self) sa self r
     \<and> trace r =
         concat (take (processed (stop_event self) sa 0
                         (item_blocks w self (length urls) 0 urls fs))
                   (item_blocks w self (length urls) 0 urls fs))
         @ ending (processed (stop_event self) sa 0
                     (item_blocks w self (length urls) 0 urls fs))
             (length urls)
         @ [Completion]"
proof -
  let ?r0 = "\<lparr>obj = self, files = fs, trace = []\<rparr>"
  have t0: "tracks (stop_event self) sa self ?r0"
    by (simp add: tracks_def flag_before_def split: option.splits)
  have pos: "urls \<noteq> [] \<longrightarrow> 0 < length urls"
    by simp
  from download_loop_trace [OF t0 pos, of w 0]
  obtain r' where "download_loop w sa (length urls) 0 urls ?r0 = Inr r'"
    and "tracks (stop_event self) sa self r'"
    and "trace r' =
           concat (take (processed (stop_event self) sa 0
                           (item_blocks w self (length urls) 0 urls fs))
                     (item_blocks w self (length urls) 0 urls fs))
           @ ending (processed (stop_event self) sa 0
                       (item_blocks w self (length urls) 0 urls fs))
               (length urls)"
    by auto
  then show ?thesis
    by (simp add: download_all_def perform_tracks)
qed

lemma length_item_blocks [simp]: "length (item_blocks w self n idx urls fs) = length urls"
  by (induction urls arbitrary: idx fs) (auto split: prod.splits)

lemma processed_le: "processed f sa c bs \<le> length bs"
  by (induction bs arbitrary: c) auto

lemma processed_uncancelled [simp]: "processed False None c bs = length bs"
  by (induction bs arbitrary: c) (auto simp: seen_def)

lemma item_blocks_nth:
  "i < length urls \<Longrightarrow>
   \<exists>evs res fs0 fs1.
      download_audio w self (urls ! i) fs0 = (evs, res, fs1)
      \<and> item_blocks w self n idx urls fs ! i = item_block n (idx + i) (urls ! i) evs res
      \<and> (\<forall>e \<in> set evs. inner e)"
proof (induction urls arbitrary: i idx fs)
  case Nil
  then show ?case by simp
next
  case (Cons url rest)
  obtain evs res fs' where da: "download_audio w self url fs = (evs, res, fs')"
    by (cases "download_audio w self url fs") auto
  show ?case
  proof (cases i)
    case 0
    have "\<forall>e \<in> set evs. inner e"
      using da by (auto dest: download_audio_inner)
    with da 0 show ?thesis
      by auto
  next
    case (Suc j)
    with Cons.prems have "j < length rest" by simp
    from Cons.IH [OF this, of "Suc idx" fs'] da Suc show ?thesis
      by simp
  qed
qed

lemma loop_progress_append [simp]: "loop_progress (xs @ ys) = loop_progress xs @ loop_progress ys"
  by (induction xs rule: loop_progress.induct) simp_all

lemma logs_append [simp]: "logs (xs @ ys) = logs xs @ logs ys"
  by (induction xs rule: logs.induct) simp_all

lemma checks_append [simp]: "checks (xs @ ys) = checks xs @ checks ys"
  by (induction xs rule: checks.induct) simp_all

lemma loop_progress_inner: "\<forall>e \<in> set evs. inner e \<Longrightarrow> loop_progress evs = []"
  by (induction evs rule: loop_progress.induct) simp_all

lemma logs_inner: "\<forall>e \<in> set evs. inner e \<Longrightarrow> logs evs = []"
  by (induction evs rule: logs.induct) simp_all

lemma checks_inner: "\<forall>e \<in> set evs. inner e \<Longrightarrow> checks evs = []"
  by (induction evs rule: checks.induct) simp_all

lemma item_blocks_mem:
  assumes "b \<in> set (item_blocks w self n idx urls fs)"
  shows "\<exists>i url evs res. b = item_block n i url evs res \<and> (\<forall>e \<in> set evs. inner e)"
proof -
  from assms obtain i where "i < length urls" and "item_blocks w self n idx urls fs ! i = b"
    by (auto simp: in_set_conv_nth)
  with item_blocks_nth [of i urls w self n idx fs] show ?thesis
    by metis
qed

lemma no_completion_in_blocks:
  "Completion \<notin> set (concat (take k (item_blocks w self n idx urls fs)))"
proof
  assume "Completion \<in> set (concat (take k (item_blocks w self n idx urls fs)))"
  then obtain b where b: "b \<in> set (take k (item_blocks w self n idx urls fs))"
    and c: "Completion \<in> set b"
    by auto
  from b have "b \<in> set (item_blocks w self n idx urls fs)"
    by (rule in_set_takeD)
  from item_blocks_mem [OF this] c show False
    by (fastforce simp: item_block_def)
qed

lemma loop_progress_item_block:
  "\<forall>e \<in> set evs. inner e \<Longrightarrow>
   loop_progress (item_block n idx url evs res) = [Float_val (percent idx n)]"
  by (simp add: item_block_def loop_progress_inner)

lemma loop_progress_blocks:
  "loop_progress (concat (item_blocks w self n idx urls fs))
   = map (\<lambda>i. Float_val (percent i n)) [idx..<idx + length urls]"
proof (induction urls arbitrary: idx fs)
  case Nil
  then show ?case by simp
next
  case (Cons url rest)
  obtain evs res fs' where da: "download_audio w self url fs = (evs, res, fs')"
    by (cases "download_audio w self url fs") auto
  then have "\<forall>e \<in> set evs. inner e"
    by (auto dest: download_audio_inner)
  with da Cons.IH [of "Suc idx" fs'] show ?case
    by (simp add: loop_progress_item_block upt_conv_Cons del: upt_Suc)
qed

lemma length_outcomes [simp]: "length (outcomes w self urls fs) = length urls"
  by (induction urls arbitrary: fs) (auto split: prod.splits)

lemma logs_item_block:
  "\<forall>e \<in> set evs. inner e \<Longrightarrow>
   logs (item_block n idx url evs res) = [msg_processing @ url, result_line res]"
  by (simp add: item_block_def logs_inner)

lemma logs_blocks:
  "logs (concat (take k (item_blocks w self n idx urls fs)))
   = concat (map (\<lambda>(url, res). [msg_processing @ url, result_line res])
       (take k (zip urls (outcomes w self urls fs))))"
proof (induction urls arbitrary: k idx fs)
  case Nil
  then show ?case by simp
next
  case (Cons url rest)
  obtain evs res fs' where da: "download_audio w self url fs = (evs, res, fs')"
    by (cases "download_audio w self url fs") auto
  then have inn: "\<forall>e \<in> set evs. inner e"
    by (auto dest: download_audio_inner)
  show ?case
  proof (cases k)
    case 0
    then show ?thesis by simp
  next
    case (Suc k')
    with da inn Cons.IH [of k' "Suc idx" fs'] show ?thesis
      by (simp add: logs_item_block)
  qed
qed

lemma item_blocks_flag:
  "item_blocks w (self\<lparr>stop_event := b\<rparr>) n idx urls fs = item_blocks w self n idx urls fs"
  by (induction urls arbitrary: idx fs) (simp_all add: download_audio_flag)

lemma checks_nil_notin: "checks xs = [] \<Longrightarrow> Is_set b \<notin> set xs"
  by (induction xs rule: checks.induct) auto

lemma item_blocks_shape:
  assumes "b \<in> set (item_blocks w self n idx urls fs)"
  shows "\<exists>rest. b = Is_set False # rest \<and> checks rest = []"
proof -
  from item_blocks_mem [OF assms]
  obtain i url evs res where "b = item_block n i url evs res" and "\<forall>e \<in> set evs. inner e"
    by blast
  then show ?thesis
    by (simp add: item_block_def checks_inner)
qed

lemma passed_checks_before_stop:
  assumes "\<forall>b \<in> set bs. \<exists>rest. b = Is_set False # rest \<and> checks rest = []"
    and "j < length (concat (take (processed False (Some t) c bs) bs))"
    and "concat (take (processed False (Some t) c bs) bs) ! j = Is_set False"
  shows "c + j < t"
  using assms
proof (induction bs arbitrary: c j)
  case Nil
  then show ?case by simp
next
  case (Cons b bs)
  from Cons.prems(1) obtain rest where b: "b = Is_set False # rest" and rest: "checks rest = []"
    by auto
  show ?case
  proof (cases "seen False (Some t) c")
    case True
    with Cons.prems(2) show ?thesis by simp
  next
    case False
    then have c: "c < t" by (simp add: seen_def)
    let ?k = "processed False (Some t) (c + length b) bs"
    from False have tk: "concat (take (processed False (Some t) c (b # bs)) (b # bs))
                         = b @ concat (take ?k bs)"
      by simp
    show ?thesis
    proof (cases "j < length b")
      case True
      with Cons.prems(3) have bj: "b ! j = Is_set False"
        unfolding tk by (simp add: nth_append)
      show ?thesis
      proof (cases j)
        case 0
        with c show ?thesis by simp
      next
        case (Suc j')
        with True b have "rest ! j' \<in> set rest" by simp
        moreover from bj Suc b have "rest ! j' = Is_set False" by simp
        ultimately show ?thesis
          using checks_nil_notin [OF rest] by metis
      qed
    next
      case False
      with Cons.prems(2,3) have
        "j - length b < length (concat (take ?k bs))"
        "concat (take ?k bs) ! (j - length b) = Is_set False"
        unfolding tk by (simp_all add: nth_append)
      from Cons.IH [OF _ this] Cons.prems(1) have "c + length b + (j - length b) < t"
        by simp
      with False show ?thesis by simp
    qed
  qed
qed

lemma stop_seen_after_blocks:
  "processed f sa c bs < length bs \<Longrightarrow>
   seen f sa (c + length (concat (take (processed f sa c bs) bs)))"
proof (induction bs arbitrary: c)
  case Nil
  then show ?case by simp
next
  case (Cons b bs)
  show ?case
  proof (cases "seen f sa c")
    case True
    then show ?thesis by simp
  next
    case False
    with Cons.prems have "processed f sa (c + length b) bs < length bs"
      by simp
    from Cons.IH [OF this] False show ?thesis
      by (simp add: add.assoc)
  qed
qed

lemma py_split_no_sep: "c \<notin> set m \<Longrightarrow> py_split c m = [m]"
  by (induction m) auto

lemma py_split_append: "c \<notin> set m \<Longrightarrow> py_split c (m @ c # rest) = m # py_split c rest"
  by (induction m) (auto split: list.splits)

lemma py_split_join:
  "msgs \<noteq> [] \<Longrightarrow> \<forall>m \<in> set msgs. c \<notin> set m \<Longrightarrow> py_split c (py_join [c] msgs) = msgs"
  by (induction "[c]" msgs rule: py_join.induct) (simp_all add: py_split_no_sep py_split_append)

lemma process_entries_yield:
  "entries_yield w es fs evs msgs fs2 \<Longrightarrow>
   process_entries w es acc fs = (evs, Inr (acc @ msgs), fs2) \<and> length msgs = length es"
proof (induction arbitrary: acc rule: entries_yield.induct)
  case (yield_Nil w fs)
  then show ?case by (simp add: return_io_def)
next
  case (yield_Cons w entry fs evs msg fs1 rest evs' msgs fs2)
  from yield_Cons.IH [of "acc @ [msg]"] yield_Cons.hyps(1) show ?case
    by (simp add: bind_io_def)
qed

section \<open>Runs in the small environment\<close>

lemma ex_download_broken:
  "download_audio example_world example_self ''broken'' fs
   = ([Extract_info (make_ydl_opts example_world example_self) ''broken''],
      Inl (Raised ''unavailable''), fs)"
  by (simp add: download_audio_def ffmpeg_available_def ydl_extract_info_def bind_io_def
        example_world_def)

lemma strip_example: "strip '' 50.0%'' = ''50.0%''"
  by (simp add: strip_def lstrip_def rstrip_def py_whitespace_def)

lemma ex_extract_video:
  "ydl_extract_info example_world opts ''video'' fs
   = ([Extract_info opts ''video'', Progress Hook (Float_val 50)],
      Inr (example_video ''a''), fs \<union> {''a.mp3'', ''a.webp''})"
  by (simp add: ydl_extract_info_def example_world_def progress_hook_def strip_example
        remove_char_def)

lemma ex_process_video:
  "process_single_entry example_world (example_video ''a'') {''a.mp3'', ''a.webp''}
   = ([Convert_thumbnail ''a.webp'',
       Add_metadata ''a.mp3'' (example_video ''a'') (Some ''a.webp.jpg''),
       Remove ''a.webp.jpg'', Remove ''a.webp''],
      Inr (msg_done @ ''a.mp3. tagged''), {''a.mp3''})"
  by (simp add: process_single_entry_def remove_temporaries_def example_world_def example_video_def bind_io_def
        return_io_def os_path_exists_def external_def splitext_def Let_def
        insert_Diff_if)

lemma ex_download_video:
  "download_audio example_world example_self ''video'' {}
   = ([Extract_info (make_ydl_opts example_world example_self) ''video'',
       Progress Hook (Float_val 50),
       Convert_thumbnail ''a.webp'',
       Add_metadata ''a.mp3'' (example_video ''a'') (Some ''a.webp.jpg''),
       Remove ''a.webp.jpg'', Remove ''a.webp''],
      Inr (msg_done @ ''a.mp3. tagged''), {''a.mp3''})"
proof -
  have av: "ffmpeg_available example_world"
    by (simp add: ffmpeg_available_def example_world_def)
  have ty: "type_field (example_video ''a'') \<noteq> Some ''playlist''"
    by (simp add: example_video_def)
  show ?thesis
    unfolding download_audio_def
    by (simp add: av ty bind_io_def ex_extract_video ex_process_video)
qed

lemma msg_stopped_distinct:
  "msg_stopped \<noteq> msg_processing @ u" "msg_stopped \<noteq> msg_done @ u" "msg_stopped \<noteq> msg_error @ u"
  by (simp_all add: msg_stopped_def msg_processing_def msg_done_def msg_error_def)

lemma ex_blocks:
  "item_blocks example_world example_self n 0 [''video'', ''broken''] {}
   = [[Is_set False, Log (msg_processing @ ''video''),
       Extract_info (make_ydl_opts example_world example_self) ''video'',
       Progress Hook (Float_val 50),
       Convert_thumbnail ''a.webp'',
       Add_metadata ''a.mp3'' (example_video ''a'') (Some ''a.webp.jpg''),
       Remove ''a.webp.jpg'', Remove ''a.webp'',
       Log (msg_done @ ''a.mp3. tagged''), Progress Loop (Float_val (percent 0 n))],
      [Is_set False, Log (msg_processing @ ''broken''),
       Extract_info (make_ydl_opts example_world example_self) ''broken'',
       Log (msg_error @ ''unavailable''), Progress Loop (Float_val (percent 1 n))]]"
  by (simp add: ex_download_video ex_download_broken item_block_def result_line_def)

lemma strip_default: "strip ''0%'' = ''0%''"
  by (simp add: strip_def lstrip_def rstrip_def py_whitespace_def)

lemma ex_init:
  "init example_world_no_path ''out'' {}
   = ([Makedirs ''out'', Subprocess_run [''app/bin/ffmpeg.exe'', ''-version''],
       Log (msg_ffmpeg_found @ ''ffmpeg version 6.0'')],
      Inr \<lparr> download_folder = ''out'', stop_event = False,
            ffmpeg_path = ''app/bin/ffmpeg.exe'', ffprobe_path = ''app/bin/ffprobe.exe'' \<rparr>,
      {})"
  by (simp add: init_def example_world_no_path_def example_world_def bind_io_def external_def
        log_callback_def return_io_def Let_def)

lemma ex_process_b:
  "process_single_entry example_world (example_video ''b'') {''b.mp3'', ''c.mp3''}
   = ([Add_metadata ''b.mp3'' (example_video ''b'') None],
      Inr (msg_done @ ''b.mp3. tagged''), {''b.mp3'', ''c.mp3''})"
  by (simp add: process_single_entry_def remove_temporaries_def example_world_def example_video_def bind_io_def
        return_io_def os_path_exists_def external_def splitext_def Let_def)

lemma ex_process_c:
  "process_single_entry example_world (example_video ''c'') {''b.mp3'', ''c.mp3''}
   = ([Add_metadata ''c.mp3'' (example_video ''c'') None],
      Inr (msg_done @ ''c.mp3. tagged''), {''b.mp3'', ''c.mp3''})"
  by (simp add: process_single_entry_def remove_temporaries_def example_world_def example_video_def bind_io_def
        return_io_def os_path_exists_def external_def splitext_def Let_def)

lemma ex_extract_list:
  "ydl_extract_info example_world opts ''list'' {}
   = ([Extract_info opts ''list''],
      Inr (Info_dict (Some ''playlist'') (Some [example_video ''b'', example_video ''c'']) None []),
      {''b.mp3'', ''c.mp3''})"
  by (simp add: ydl_extract_info_def example_world_def)

lemma fl33: "floorlog 2 33 = 6"
  by code_simp

lemma fl66: "floorlog 2 66 = 7"
  by code_simp

lemma rd_two_thirds: "round_double (2/3) = 6004799503160661 / 2^53"
  by (simp add: round_double_def binade_def fl1 round_ties_even_def pow2_def Let_def)

lemma rd_third_100: "round_double (6004799503160661 / 2^54 * 100) = 2345624805922133 / 2^46"
  by (simp add: round_double_def binade_def fl33 round_ties_even_def pow2_def Let_def)

lemma rd_two_thirds_100: "round_double (6004799503160661 / 2^53 * 100) = 2345624805922133 / 2^45"
  by (simp add: round_double_def binade_def fl66 round_ties_even_def pow2_def Let_def)

lemma ex_percent_3:
  "percent 0 3 = 2345624805922133 / 2^46"
  "percent 1 3 = 2345624805922133 / 2^45"
  "percent 2 3 = 100"
proof -
  have a: "real (0 + 1) / real 3 = 1 / 3" by simp
  have b: "real (1 + 1) / real 3 = 2 / 3" by simp
  have c: "real (2 + 1) / real 3 = 1" by simp
  show "percent 0 3 = 2345624805922133 / 2^46"
    unfolding percent_def a by (simp only: rd_third rd_third_100)
  show "percent 1 3 = 2345624805922133 / 2^45"
    unfolding percent_def b by (simp only: rd_two_thirds rd_two_thirds_100)
  show "percent 2 3 = 100"
    unfolding percent_def c by (simp only: rd_one rd_100 mult_1)
qed

lemma ex_percent_top:
  "percent (2 ^ 54 - 2) (2 ^ 54) = 100"
  "percent (2 ^ 54 - 1) (2 ^ 54) = 100"
proof -
  have a: "real (2 ^ 54 - 2 + 1) / real (2 ^ 54) = (2 ^ 54 - 1) / 2 ^ 54"
    by simp
  have b: "real (2 ^ 54 - 1 + 1) / real (2 ^ 54) = 1"
    by simp
  show "percent (2 ^ 54 - 2) (2 ^ 54) = 100"
    unfolding percent_def a by (simp only: rd_top rd_100 mult_1)
  show "percent (2 ^ 54 - 1) (2 ^ 54) = 100"
    unfolding percent_def b by (simp only: rd_one rd_100 mult_1)
qed

lemma metadata_calls_append [simp]:
  "metadata_calls (xs @ ys) = metadata_calls xs @ metadata_calls ys"
  by (induction xs rule: metadata_calls.induct) simp_all

lemma remove_temporaries_calls:
  "remove_temporaries w t p fs = (evs, res, fs') \<Longrightarrow> metadata_calls evs = []"
  by (auto simp: remove_temporaries_def bind_io_def return_io_def os_path_exists_def external_def
        split: option.splits if_splits prod.splits sum.splits)

lemma process_entries_raise:
  "entries_raise w es fs evs e fs2 \<Longrightarrow> process_entries w es acc fs = (evs, Inl e, fs2)"
proof (induction arbitrary: acc rule: entries_raise.induct)
  case (raise_here w entry fs evs e fs1 rest)
  then show ?case by (simp add: bind_io_def)
next
  case (raise_later w entry fs evs msg fs1 rest evs' e fs2)
  from raise_later.IH [of "acc @ [msg]"] raise_later.hyps(1) show ?case
    by (simp add: bind_io_def)
qed

lemma entries_yield_or_raise:
  "(\<exists>evs msgs fs2. entries_yield w es fs evs msgs fs2)
   \<or> (\<exists>evs e fs2. entries_raise w es fs evs e fs2)"
proof (induction es arbitrary: fs)
  case Nil
  show ?case by (blast intro: yield_Nil)
next
  case (Cons entry rest)
  obtain evs res fs1 where p: "process_single_entry w entry fs = (evs, res, fs1)"
    by (cases "process_single_entry w entry fs") auto
  show ?case
  proof (cases res)
    case (Inl e)
    with p show ?thesis by (blast intro: raise_here)
  next
    case (Inr msg)
    with p Cons.IH [of fs1] show ?thesis
      by (blast intro: yield_Cons raise_later)
  qed
qed

section \<open>The claims\<close>

text \<open>
  Claim C1. For every URL list, every environment (so whether or not \<open>download_audio\<close>
  raises for some URL) and every moment at which \<open>stop_download\<close> may be called, a run of
  \<open>_download_all\<close> ends normally, calls the completion callback exactly once, and that call
  is its last action: it comes after the loop, whether the loop ran through the list or left
  it early on the cancellation flag.
\<close>

theorem completion_exactly_once_at_end:
  "\<exists>r. download_all w stop_at self fs url_list = Inr r
     \<and> count_list (trace r) Completion = 1
     \<and> last (trace r) = Completion"
proof -
  from download_all_trace [of w stop_at self fs url_list]
  obtain r k where r: "download_all w stop_at self fs url_list = Inr r"
    and tr: "trace r =
      concat (take k (item_blocks w self (length url_list) 0 url_list fs))
      @ ending k (length url_list) @ [Completion]"
    by blast
  have "count_list (concat (take k (item_blocks w self (length url_list) 0 url_list fs)))
          Completion = 0"
    using no_completion_in_blocks by (simp add: count_list_0_iff)
  with tr have "count_list (trace r) Completion = 1"
    by (simp add: ending_def)
  with r tr show ?thesis
    by simp
qed

text \<open>
  Claim C2, as the code has it. A run started by \<open>start_download\<close>, during which
  \<open>stop_download\<close> is called when the worker has performed \<open>t\<close> actions, consists of
  the complete blocks of the first \<open>k\<close> items, where \<open>k\<close> counts the leading items whose
  check of the flag comes before the call. Every check that finds the flag clear is made
  before the call, so no item begins after it; an item that has passed its check runs to
  its end, whenever the call comes. A check that finds the flag set comes after the call and
  is followed by the stop line; there is such a check exactly when an item was still to be
  begun (\<open>k\<close> less than the length of the list). When the call comes after the check of the
  last item, the flag is set and no check reads it.
\<close>

theorem cancellation_checked_between_items:
  assumes bs: "bs = item_blocks w self (length url_list) 0 url_list fs"
    and k: "k = processed False (Some t) 0 bs"
  shows "\<exists>r. start_download w (Some t) self fs url_list = Inr r
     \<and> trace r =
         concat (take k bs)
         @ (if k < length url_list then [Is_set True, Log msg_stopped] else [])
         @ [Completion]
     \<and> (\<forall>j. j < length (trace r) \<and> trace r ! j = Is_set False \<longrightarrow> j < t)
     \<and> (\<forall>j. j < length (trace r) \<and> trace r ! j = Is_set True \<longrightarrow> t \<le> j)
     \<and> (Is_set True \<in> set (trace r) \<longleftrightarrow> k < length url_list)
     \<and> (stop_event (obj r) \<longleftrightarrow> t < length (trace r))"
proof -
  let ?n = "length url_list"
  let ?self = "self\<lparr>stop_event := False\<rparr>"
  let ?A = "concat (take k bs)"
  let ?E = "if k < ?n then [Is_set True, Log msg_stopped] else []"
  have bs': "item_blocks w ?self ?n 0 url_list fs = bs"
    by (simp add: bs item_blocks_flag)
  from download_all_trace [of w "Some t" ?self fs url_list]
  obtain r where r: "start_download w (Some t) self fs url_list = Inr r"
    and trk: "tracks False (Some t) ?self r"
    and tr: "trace r = ?A @ ?E @ [Completion]"
    unfolding start_download_def bs' by (auto simp: k ending_def)
  have shape: "\<forall>b \<in> set bs. \<exists>rest. b = Is_set False # rest \<and> checks rest = []"
    unfolding bs using item_blocks_shape by blast
  have len: "length bs = ?n"
    by (simp add: bs)
  have noT: "Is_set True \<notin> set ?A"
  proof
    assume "Is_set True \<in> set ?A"
    then obtain b where "b \<in> set (take k bs)" and m: "Is_set True \<in> set b"
      by auto
    then have "b \<in> set bs"
      by (auto dest: in_set_takeD)
    with shape obtain rest where "b = Is_set False # rest" and "checks rest = []"
      by blast
    with m checks_nil_notin [of rest True] show False
      by simp
  qed
  have before: "j < t" if j: "j < length (trace r)" and x: "trace r ! j = Is_set False" for j
  proof (cases "j < length ?A")
    case True
    with x have "?A ! j = Is_set False"
      by (simp add: tr nth_append)
    from passed_checks_before_stop [OF shape, of j t 0] True this show ?thesis
      by (simp add: k)
  next
    case False
    with j have "j - length ?A < length (?E @ [Completion])"
      by (simp add: tr)
    then have "(?E @ [Completion]) ! (j - length ?A) \<in> set (?E @ [Completion])"
      by (rule nth_mem)
    moreover from False x have "(?E @ [Completion]) ! (j - length ?A) = Is_set False"
      by (simp add: tr nth_append)
    ultimately show ?thesis
      by (auto split: if_splits)
  qed
  have after: "t \<le> j" if j: "j < length (trace r)" and x: "trace r ! j = Is_set True" for j
  proof (cases "j < length ?A")
    case True
    with x have "?A ! j = Is_set True"
      by (simp add: tr nth_append)
    with True noT show ?thesis
      by (metis nth_mem)
  next
    case False
    with x have e: "(?E @ [Completion]) ! (j - length ?A) = Is_set True"
      by (simp add: tr nth_append)
    from False j have jb: "j - length ?A < length (?E @ [Completion])"
      by (simp add: tr)
    then have "(?E @ [Completion]) ! (j - length ?A) \<in> set (?E @ [Completion])"
      by (rule nth_mem)
    with e have kn: "k < ?n"
      by (auto split: if_splits)
    with jb have "j - length ?A < 3"
      by simp
    with e kn have "j - length ?A = 0"
      by (auto simp: nth_Cons' split: if_splits)
    with False have jl: "j = length ?A" by simp
    from kn len have "processed False (Some t) 0 bs < length bs"
      by (simp add: k)
    from stop_seen_after_blocks [OF this] have "seen False (Some t) (length ?A)"
      by (simp add: k)
    with jl show ?thesis
      by (simp add: seen_def)
  qed
  have iff: "Is_set True \<in> set (trace r) \<longleftrightarrow> k < ?n"
    using noT by (simp add: tr)
  have flag: "stop_event (obj r) \<longleftrightarrow> t < length (trace r)"
    using trk by (simp add: tracks_def flag_before_def)
  from r tr before after iff flag show ?thesis
    by blast
qed

theorem cancellation_checked_between_items_witness:
  "\<exists>r. start_download example_world (Some 3) example_self {} [''video'', ''broken''] = Inr r
     \<and> trace r =
         [Is_set False, Log (msg_processing @ ''video''),
          Extract_info (make_ydl_opts example_world example_self) ''video'',
          Progress Hook (Float_val 50),
          Convert_thumbnail ''a.webp'',
          Add_metadata ''a.mp3'' (example_video ''a'') (Some ''a.webp.jpg''),
          Remove ''a.webp.jpg'', Remove ''a.webp'',
          Log (msg_done @ ''a.mp3. tagged''), Progress Loop (Float_val 50),
          Is_set True, Log msg_stopped, Completion]
     \<and> stop_event (obj r)"
  using cancellation_checked_between_items
          [where w = example_world and self = example_self
             and url_list = "[''video'', ''broken'']" and fs = "{}" and t = 3, OF refl refl]
  unfolding ex_blocks
  by (auto simp: seen_def percent_def rd_half rd_50)

text \<open>
  The claim as stated also promises a stop line whenever the flag has been set. Here
  \<open>stop_download\<close> is called while the only item of the list is being downloaded: the item
  runs to its end, the flag is set at the end of the run, and no stop line is logged.
\<close>

theorem no_stop_line_counterexample:
  "start_download example_world (Some 3) example_self {} [''video'']
   = Inr \<lparr> obj = example_self\<lparr>stop_event := True\<rparr>, files = {''a.mp3''},
           trace =
             [Is_set False, Log (msg_processing @ ''video''),
              Extract_info (make_ydl_opts example_world example_self) ''video'',
              Progress Hook (Float_val 50),
              Convert_thumbnail ''a.webp'',
              Add_metadata ''a.mp3'' (example_video ''a'') (Some ''a.webp.jpg''),
              Remove ''a.webp.jpg'', Remove ''a.webp'',
              Log (msg_done @ ''a.mp3. tagged''), Progress Loop (Float_val 100),
              Completion] \<rparr>
   \<and> Log msg_stopped \<notin> set
         [Is_set False, Log (msg_processing @ ''video''),
          Extract_info (make_ydl_opts example_world example_self) ''video'',
          Progress Hook (Float_val 50),
          Convert_thumbnail ''a.webp'',
          Add_metadata ''a.mp3'' (example_video ''a'') (Some ''a.webp.jpg''),
          Remove ''a.webp.jpg'', Remove ''a.webp'',
          Log (msg_done @ ''a.mp3. tagged''), Progress Loop (Float_val 100),
          Completion]"
  by (simp add: start_download_def download_all_def is_set_def perform_def poll_def Let_def
        stop_download_def download_audio_flag ex_download_video msg_stopped_distinct
        rd_one rd_100)

text \<open>
  Claim C3. The actions of a run of \<open>_download_all\<close> are the blocks of the processed items,
  one after the other in the order of the URL list, followed by the stop line if the loop
  was left early, and the completion call. The block of the \<open>i\<close>-th URL holds the check of
  the flag, the line announcing that URL, the actions of its \<open>download_audio\<close>, the line
  with its result or error and its progress call, and nothing of any other URL: the block of
  the next URL starts only after it.
\<close>

theorem urls_processed_in_order:
  "\<exists>r. download_all w stop_at self fs url_list = Inr r
     \<and> trace r =
         concat (take (processed (stop_event self) stop_at 0
                         (item_blocks w self (length url_list) 0 url_list fs))
                   (item_blocks w self (length url_list) 0 url_list fs))
         @ (if processed (stop_event self) stop_at 0
                 (item_blocks w self (length url_list) 0 url_list fs) < length url_list
            then [Is_set True, Log msg_stopped] else [])
         @ [Completion]
     \<and> (\<forall>i. i < length url_list \<longrightarrow>
          (\<exists>evs res fs0 fs1.
              download_audio w self (url_list ! i) fs0 = (evs, res, fs1)
              \<and> item_blocks w self (length url_list) 0 url_list fs ! i =
                  [Is_set False, Log (msg_processing @ url_list ! i)] @ evs
                  @ [Log (case res of Inr result \<Rightarrow> result | Inl e \<Rightarrow> msg_error @ str_exn e),
                     Progress Loop
                       (Float_val
                          (round_double
                             (round_double (real (i + 1) / real (length url_list)) * 100)))]))"
proof -
  let ?bs = "item_blocks w self (length url_list) 0 url_list fs"
  let ?k = "processed (stop_event self) stop_at 0 ?bs"
  from download_all_trace [of w stop_at self fs url_list]
  obtain r where r: "download_all w stop_at self fs url_list = Inr r"
    and tr: "trace r = concat (take ?k ?bs) @ ending ?k (length url_list) @ [Completion]"
    by blast
  have blocks: "\<exists>evs res fs0 fs1.
              download_audio w self (url_list ! i) fs0 = (evs, res, fs1)
              \<and> ?bs ! i =
                  [Is_set False, Log (msg_processing @ url_list ! i)] @ evs
                  @ [Log (case res of Inr result \<Rightarrow> result | Inl e \<Rightarrow> msg_error @ str_exn e),
                     Progress Loop
                       (Float_val
                          (round_double
                             (round_double (real (i + 1) / real (length url_list)) * 100)))]"
    if "i < length url_list" for i
    using item_blocks_nth [OF that, of w self "length url_list" 0 fs]
    by (auto simp: item_block_def result_line_def percent_def)
  from r tr blocks show ?thesis
    by (auto simp: ending_def)
qed

theorem urls_processed_in_order_witness:
  "\<exists>r. download_all example_world None example_self {} [''video'', ''broken''] = Inr r
     \<and> trace r =
         [Is_set False, Log (msg_processing @ ''video''),
          Extract_info (make_ydl_opts example_world example_self) ''video'',
          Progress Hook (Float_val 50),
          Convert_thumbnail ''a.webp'',
          Add_metadata ''a.mp3'' (example_video ''a'') (Some ''a.webp.jpg''),
          Remove ''a.webp.jpg'', Remove ''a.webp'',
          Log (msg_done @ ''a.mp3. tagged''), Progress Loop (Float_val 50),
          Is_set False, Log (msg_processing @ ''broken''),
          Extract_info (make_ydl_opts example_world example_self) ''broken'',
          Log (msg_error @ ''unavailable''), Progress Loop (Float_val 100),
          Completion]"
proof -
  have f: "stop_event example_self = False"
    by (simp add: example_self_def)
  from urls_processed_in_order [of example_world None example_self "{}" "[''video'', ''broken'']"]
  show ?thesis
    unfolding ex_blocks f
    by (auto simp: percent_def seen_def rd_half rd_50 rd_one rd_100)
qed

text \<open>
  Claim C4, as the code has it. For a non-empty URL list of length \<open>n\<close>, run with the flag
  clear and without a call of \<open>stop_download\<close>, the progress calls made from the worker
  loop are, in order, the floats \<open>(i + 1) / n * 100\<close> for \<open>i = 0, \<dots>, n - 1\<close>, each
  computed in binary64 with a rounded quotient and a rounded product: one per URL, the last
  one exactly 100, in every environment and so also for the URLs whose processing raised an
  exception the loop caught. The values strictly increase with \<open>i\<close> when the list has at
  most \<open>2\<^sup>5\<^sup>0\<close> URLs.
\<close>

theorem progress_once_per_url:
  assumes "url_list \<noteq> []" and "\<not> stop_event self"
  shows "\<exists>r. download_all w None self fs url_list = Inr r
     \<and> loop_progress (trace r)
        = map (\<lambda>i. Float_val
                       (round_double (round_double (real (i + 1) / real (length url_list)) * 100)))
            [0..<length url_list]
     \<and> last (loop_progress (trace r)) = Float_val 100
     \<and> (length url_list \<le> 2 ^ 50 \<longrightarrow>
          (\<forall>i j. i < j \<and> j < length url_list \<longrightarrow>
             round_double (round_double (real (i + 1) / real (length url_list)) * 100)
             < round_double (round_double (real (j + 1) / real (length url_list)) * 100)))"
proof -
  let ?n = "length url_list"
  from assms(1) have n: "0 < ?n" by simp
  from download_all_trace [of w None self fs url_list] assms(2)
  obtain r where r: "download_all w None self fs url_list = Inr r"
    and tr: "trace r = concat (item_blocks w self ?n 0 url_list fs) @ [Completion]"
    by (auto simp: ending_def)
  have lp: "loop_progress (trace r) = map (\<lambda>i. Float_val (percent i ?n)) [0..<?n]"
    by (simp add: tr loop_progress_blocks)
  from n obtain m where m: "?n = Suc m"
    by (cases ?n) auto
  have "last (loop_progress (trace r)) = Float_val (percent (?n - 1) ?n)"
    unfolding lp m by (simp add: last_map)
  then have lst: "last (loop_progress (trace r)) = Float_val 100"
    by (simp only: percent_last [OF n])
  have mono: "?n \<le> 2 ^ 50 \<longrightarrow>
      (\<forall>i j. i < j \<and> j < ?n \<longrightarrow> percent i ?n < percent j ?n)"
    using percent_strict by blast
  from r lp lst mono show ?thesis
    unfolding percent_def by blast
qed

theorem progress_once_per_url_witness:
  "\<exists>r. download_all example_world None example_self {} [''broken'', ''broken'', ''broken'']
         = Inr r
     \<and> loop_progress (trace r)
         = [Float_val (2345624805922133 / 2 ^ 46), Float_val (2345624805922133 / 2 ^ 45),
            Float_val 100]"
proof -
  let ?urls = "[''broken'', ''broken'', ''broken'']"
  have a: "?urls \<noteq> []"
    by simp
  have b: "\<not> stop_event example_self"
    by (simp add: example_self_def)
  have len: "length ?urls = 3"
    by simp
  have upt: "[0..<3] = [0, 1, 2]"
    by (simp add: upt_rec)
  from progress_once_per_url [OF a b, of example_world "{}"]
  obtain r where r: "download_all example_world None example_self {} ?urls = Inr r"
    and lp: "loop_progress (trace r)
         = map (\<lambda>i. Float_val
                        (round_double (round_double (real (i + 1) / real (length ?urls)) * 100)))
             [0..<length ?urls]"
    by blast
  from lp have "loop_progress (trace r) = map (\<lambda>i. Float_val (percent i 3)) [0, 1, 2]"
    unfolding len upt percent_def .
  then have "loop_progress (trace r)
         = [Float_val (2345624805922133 / 2 ^ 46), Float_val (2345624805922133 / 2 ^ 45),
            Float_val 100]"
    by (simp only: list.map ex_percent_3)
  with r show ?thesis
    by blast
qed

text \<open>
  The claim as stated promises the strict increase for every list. For a list of \<open>2\<^sup>5\<^sup>4\<close>
  URLs the quotient of the last but one URL, \<open>(2\<^sup>5\<^sup>4 - 1) / 2\<^sup>5\<^sup>4\<close>, rounds to 1, so the last two
  progress values are both 100.
\<close>

theorem progress_not_strict_counterexample:
  "\<not> isl (download_all example_world None example_self {} (replicate (2 ^ 54) ''broken''))
   \<and> loop_progress
         (trace (projr (download_all example_world None example_self {}
                          (replicate (2 ^ 54) ''broken''))))
       ! (2 ^ 54 - 2) = Float_val 100
   \<and> loop_progress
         (trace (projr (download_all example_world None example_self {}
                          (replicate (2 ^ 54) ''broken''))))
       ! (2 ^ 54 - 1) = Float_val 100"
proof -
  define urls where "urls = replicate (2 ^ 54) ''broken''"
  have len: "length urls = 2 ^ 54"
    unfolding urls_def by (rule length_replicate)
  have f: "stop_event example_self = False"
    by (simp add: example_self_def)
  from download_all_trace [of example_world None example_self "{}" urls]
  obtain r where r: "download_all example_world None example_self {} urls = Inr r"
    and tr: "trace r =
         concat (take (processed (stop_event example_self) None 0
                         (item_blocks example_world example_self (length urls) 0 urls {}))
                   (item_blocks example_world example_self (length urls) 0 urls {}))
         @ ending (processed (stop_event example_self) None 0
                     (item_blocks example_world example_self (length urls) 0 urls {}))
             (length urls)
         @ [Completion]"
    by blast
  have k: "processed (stop_event example_self) None 0
             (item_blocks example_world example_self (length urls) 0 urls {}) = length urls"
    by (simp only: f processed_uncancelled length_item_blocks)
  have tr': "trace r
             = concat (item_blocks example_world example_self (length urls) 0 urls {})
               @ [Completion]"
    unfolding tr k by (simp add: ending_def)
  have lp: "loop_progress (trace r) = map (\<lambda>i. Float_val (percent i (2 ^ 54))) [0..<2 ^ 54]"
    unfolding tr' using loop_progress_blocks [of example_world example_self "length urls" 0 urls "{}"]
    by (simp add: len)
  have i1: "(2::nat) ^ 54 - 2 < 2 ^ 54" and i2: "(2::nat) ^ 54 - 1 < 2 ^ 54"
    by simp_all
  have v1: "loop_progress (trace r) ! (2 ^ 54 - 2) = Float_val 100"
    unfolding lp using i1 by (simp only: nth_map length_upt diff_zero nth_upt add_0 ex_percent_top)
  have v2: "loop_progress (trace r) ! (2 ^ 54 - 1) = Float_val 100"
    unfolding lp using i2 by (simp only: nth_map length_upt diff_zero nth_upt add_0 ex_percent_top)
  from r v1 v2 show ?thesis
    unfolding urls_def by simp
qed

text \<open>
  Claim C5. Every run of \<open>_download_all\<close> ends normally, whatever \<open>download_audio\<close>
  raises. Each URL the loop attempts gives two log lines: the line announcing it and then
  either the result \<open>download_audio\<close> returned or, when it raised \<open>e\<close>, the error line made
  of the error prefix and \<open>str(e)\<close>; the lines of the next attempted URL follow. How many
  URLs are attempted depends on the cancellation flag alone: without cancellation all of
  them are, whichever of them raise.
\<close>

theorem errors_logged_and_isolated:
  "\<exists>r. download_all w stop_at self fs url_list = Inr r
     \<and> length (outcomes w self url_list fs) = length url_list
     \<and> processed (stop_event self) stop_at 0
          (item_blocks w self (length url_list) 0 url_list fs) \<le> length url_list
     \<and> (stop_at = None \<and> \<not> stop_event self \<longrightarrow>
          processed (stop_event self) stop_at 0
            (item_blocks w self (length url_list) 0 url_list fs) = length url_list)
     \<and> logs (trace r) =
         concat (map (\<lambda>(url, res).
                        [msg_processing @ url,
                         (case res of Inr result \<Rightarrow> result | Inl e \<Rightarrow> msg_error @ str_exn e)])
                   (take (processed (stop_event self) stop_at 0
                            (item_blocks w self (length url_list) 0 url_list fs))
                      (zip url_list (outcomes w self url_list fs))))
         @ (if processed (stop_event self) stop_at 0
                 (item_blocks w self (length url_list) 0 url_list fs) < length url_list
            then [msg_stopped] else [])"
proof -
  let ?bs = "item_blocks w self (length url_list) 0 url_list fs"
  let ?k = "processed (stop_event self) stop_at 0 ?bs"
  from download_all_trace [of w stop_at self fs url_list]
  obtain r where r: "download_all w stop_at self fs url_list = Inr r"
    and tr: "trace r = concat (take ?k ?bs) @ ending ?k (length url_list) @ [Completion]"
    by blast
  have k: "?k \<le> length url_list"
    using processed_le [of "stop_event self" stop_at 0 ?bs] by simp
  have full: "stop_at = None \<and> \<not> stop_event self \<longrightarrow> ?k = length url_list"
    by auto
  have "logs (trace r) =
          concat (map (\<lambda>(url, res). [msg_processing @ url, result_line res])
                    (take ?k (zip url_list (outcomes w self url_list fs))))
          @ (if ?k < length url_list then [msg_stopped] else [])"
    by (simp add: tr logs_blocks ending_def)
  with r k full show ?thesis
    unfolding result_line_def by auto
qed


theorem errors_logged_and_isolated_witness:
  "\<exists>r. download_all example_world None example_self {} [''broken'', ''video''] = Inr r
     \<and> logs (trace r) =
         [msg_processing @ ''broken'', msg_error @ ''unavailable'',
          msg_processing @ ''video'', msg_done @ ''a.mp3. tagged'']"
proof -
  let ?urls = "[''broken'', ''video'']"
  let ?bs = "item_blocks example_world example_self (length ?urls) 0 ?urls {}"
  have f: "stop_event example_self = False"
    by (simp add: example_self_def)
  have k: "processed (stop_event example_self) None 0 ?bs = length ?urls"
    by (simp only: f processed_uncancelled length_item_blocks)
  have o: "outcomes example_world example_self ?urls {}
           = [Inl (Raised ''unavailable''), Inr (msg_done @ ''a.mp3. tagged'')]"
    by (simp add: ex_download_broken ex_download_video)
  from errors_logged_and_isolated [of example_world None example_self "{}" ?urls]
  obtain r where r: "download_all example_world None example_self {} ?urls = Inr r"
    and lg: "logs (trace r) =
         concat (map (\<lambda>(url, res).
                        [msg_processing @ url,
                         (case res of Inr result \<Rightarrow> result | Inl e \<Rightarrow> msg_error @ str_exn e)])
                   (take (processed (stop_event example_self) None 0 ?bs)
                      (zip ?urls (outcomes example_world example_self ?urls {}))))
         @ (if processed (stop_event example_self) None 0 ?bs < length ?urls
            then [msg_stopped] else [])"
    by blast
  from lg have "logs (trace r) =
         [msg_processing @ ''broken'', msg_error @ ''unavailable'',
          msg_processing @ ''video'', msg_done @ ''a.mp3. tagged'']"
    unfolding k o by simp
  with r show ?thesis
    by blast
qed

text \<open>
  Claim C6, as the code has it. Let ffmpeg be available and \<open>extract_info\<close> return an info
  dictionary. When its \<open>_type\<close> is \<open>playlist\<close>, either \<open>_process_single_entry\<close> returns a
  message for each of its entries, taken in order, and \<open>download_audio\<close> returns these
  messages joined by newlines (as many messages as entries; when there is a message and
  none holds a newline itself, splitting the returned text at the newlines gives the
  messages back, one line per entry); or \<open>_process_single_entry\<close> raises for some entry,
  and \<open>download_audio\<close> raises that exception and returns no line, the messages of the
  entries before being lost. Otherwise it returns (or raises) what
  \<open>_process_single_entry\<close> does for the info dictionary itself.
\<close>

theorem download_audio_status_lines:
  assumes "ffmpeg_available w"
    and "ydl_extract_info w (make_ydl_opts w self) url fs = (evs0, Inr info, fs1)"
    and "entries = (case entries_field info of None \<Rightarrow> [] | Some es \<Rightarrow> es)"
  shows "(type_field info = Some ''playlist'' \<longrightarrow>
           (\<forall>evs msgs fs2.
              entries_yield w entries fs1 evs msgs fs2 \<longrightarrow>
                download_audio w self url fs = (evs0 @ evs, Inr (py_join [CHR 0x0A] msgs), fs2)
                \<and> length msgs = length entries
                \<and> (msgs \<noteq> [] \<and> (\<forall>m \<in> set msgs. CHR 0x0A \<notin> set m) \<longrightarrow>
                     py_split (CHR 0x0A) (py_join [CHR 0x0A] msgs) = msgs))
           \<and> (\<forall>evs e fs2.
                entries_raise w entries fs1 evs e fs2 \<longrightarrow>
                  download_audio w self url fs = (evs0 @ evs, Inl e, fs2))
           \<and> ((\<exists>evs msgs fs2. entries_yield w entries fs1 evs msgs fs2)
                \<or> (\<exists>evs e fs2. entries_raise w entries fs1 evs e fs2)))
       \<and> (type_field info \<noteq> Some ''playlist'' \<longrightarrow>
           (\<forall>evs res fs2.
              process_single_entry w info fs1 = (evs, res, fs2) \<longrightarrow>
                download_audio w self url fs = (evs0 @ evs, res, fs2)))"
proof (intro conjI impI allI)
  fix evs msgs fs2
  assume pl: "type_field info = Some ''playlist''"
    and y: "entries_yield w entries fs1 evs msgs fs2"
  from process_entries_yield [OF y, of "[]"]
  have pe: "process_entries w entries [] fs1 = (evs, Inr msgs, fs2)"
    and len: "length msgs = length entries"
    by simp_all
  show "download_audio w self url fs = (evs0 @ evs, Inr (py_join [CHR 0x0A] msgs), fs2)"
    using assms pl pe by (simp add: download_audio_def bind_io_def return_io_def)
  show "length msgs = length entries"
    by (rule len)
next
  fix evs msgs fs2
  assume "msgs \<noteq> [] \<and> (\<forall>m \<in> set msgs. CHR 0x0A \<notin> set m)"
  then show "py_split (CHR 0x0A) (py_join [CHR 0x0A] msgs) = msgs"
    by (simp add: py_split_join)
next
  fix evs e fs2
  assume pl: "type_field info = Some ''playlist''"
    and y: "entries_raise w entries fs1 evs e fs2"
  from process_entries_raise [OF y, of "[]"] assms pl
  show "download_audio w self url fs = (evs0 @ evs, Inl e, fs2)"
    by (simp add: download_audio_def bind_io_def)
next
  show "(\<exists>evs msgs fs2. entries_yield w entries fs1 evs msgs fs2)
        \<or> (\<exists>evs e fs2. entries_raise w entries fs1 evs e fs2)"
    by (rule entries_yield_or_raise)
next
  fix evs res fs2
  assume "type_field info \<noteq> Some ''playlist''"
    and "process_single_entry w info fs1 = (evs, res, fs2)"
  with assms show "download_audio w self url fs = (evs0 @ evs, res, fs2)"
    by (simp add: download_audio_def bind_io_def)
qed

theorem download_audio_status_lines_witness:
  "download_audio example_world example_self ''list'' {}
     = ([Extract_info (make_ydl_opts example_world example_self) ''list'',
         Add_metadata ''b.mp3'' (example_video ''b'') None,
         Add_metadata ''c.mp3'' (example_video ''c'') None],
        Inr (msg_done @ ''b.mp3. tagged'' @ [CHR 0x0A] @ msg_done @ ''c.mp3. tagged''),
        {''b.mp3'', ''c.mp3''})
   \<and> download_audio example_world example_self ''video'' {}
     = ([Extract_info (make_ydl_opts example_world example_self) ''video'',
         Progress Hook (Float_val 50),
         Convert_thumbnail ''a.webp'',
         Add_metadata ''a.mp3'' (example_video ''a'') (Some ''a.webp.jpg''),
         Remove ''a.webp.jpg'', Remove ''a.webp''],
        Inr (msg_done @ ''a.mp3. tagged''), {''a.mp3''})"
proof -
  have av: "ffmpeg_available example_world"
    by (simp add: ffmpeg_available_def example_world_def)
  let ?pl = "Info_dict (Some ''playlist'') (Some [example_video ''b'', example_video ''c'']) None []"
  have es: "[example_video ''b'', example_video ''c'']
            = (case entries_field ?pl of None \<Rightarrow> [] | Some es \<Rightarrow> es)"
    by simp
  have y: "entries_yield example_world [example_video ''b'', example_video ''c'']
             {''b.mp3'', ''c.mp3''}
             ([Add_metadata ''b.mp3'' (example_video ''b'') None]
              @ [Add_metadata ''c.mp3'' (example_video ''c'') None] @ [])
             [msg_done @ ''b.mp3. tagged'', msg_done @ ''c.mp3. tagged'']
             {''b.mp3'', ''c.mp3''}"
    by (rule yield_Cons [OF ex_process_b yield_Cons [OF ex_process_c yield_Nil]])
  from download_audio_status_lines [OF av ex_extract_list es] y
  have one: "download_audio example_world example_self ''list'' {}
     = ([Extract_info (make_ydl_opts example_world example_self) ''list'',
         Add_metadata ''b.mp3'' (example_video ''b'') None,
         Add_metadata ''c.mp3'' (example_video ''c'') None],
        Inr (msg_done @ ''b.mp3. tagged'' @ [CHR 0x0A] @ msg_done @ ''c.mp3. tagged''),
        {''b.mp3'', ''c.mp3''})"
    by fastforce
  have ev: "[] = (case entries_field (example_video ''a'') of None \<Rightarrow> [] | Some es \<Rightarrow> es)"
    by (simp add: example_video_def)
  have ty: "type_field (example_video ''a'') \<noteq> Some ''playlist''"
    by (simp add: example_video_def)
  from download_audio_status_lines [OF av ex_extract_video ev] ty ex_process_video
  have two: "download_audio example_world example_self ''video'' {}
     = ([Extract_info (make_ydl_opts example_world example_self) ''video'',
         Progress Hook (Float_val 50),
         Convert_thumbnail ''a.webp'',
         Add_metadata ''a.mp3'' (example_video ''a'') (Some ''a.webp.jpg''),
         Remove ''a.webp.jpg'', Remove ''a.webp''],
        Inr (msg_done @ ''a.mp3. tagged''), {''a.mp3''})"
    by fastforce
  from one two show ?thesis
    by simp
qed

text \<open>
  The claim as stated promises a status line per item for every extraction result. Here the
  playlist has two entries, and tagging the file of the second one raises: the first entry
  was processed, and \<open>download_audio\<close> returns no line at all.
\<close>

theorem entry_raises_counterexample:
  "download_audio example_world_bad_tags example_self ''list'' {}
   = ([Extract_info (make_ydl_opts example_world_bad_tags example_self) ''list'',
       Add_metadata ''b.mp3'' (example_video ''b'') None,
       Add_metadata ''c.mp3'' (example_video ''c'') None],
      Inl (Raised ''cannot write tags''), {''b.mp3'', ''c.mp3''})"
proof -
  have av: "ffmpeg_available example_world_bad_tags"
    by (simp add: ffmpeg_available_def example_world_bad_tags_def example_world_def)
  have ex: "ydl_extract_info example_world_bad_tags opts ''list'' {}
            = ([Extract_info opts ''list''],
               Inr (Info_dict (Some ''playlist'')
                      (Some [example_video ''b'', example_video ''c'']) None []),
               {''b.mp3'', ''c.mp3''})" for opts
    by (simp add: ydl_extract_info_def example_world_bad_tags_def example_world_def)
  have pb: "process_single_entry example_world_bad_tags (example_video ''b'') {''b.mp3'', ''c.mp3''}
            = ([Add_metadata ''b.mp3'' (example_video ''b'') None],
               Inr (msg_done @ ''b.mp3. tagged''), {''b.mp3'', ''c.mp3''})"
    by (simp add: process_single_entry_def remove_temporaries_def example_world_bad_tags_def
          example_world_def example_video_def bind_io_def return_io_def os_path_exists_def
          external_def splitext_def Let_def)
  have pc: "process_single_entry example_world_bad_tags (example_video ''c'') {''b.mp3'', ''c.mp3''}
            = ([Add_metadata ''c.mp3'' (example_video ''c'') None],
               Inl (Raised ''cannot write tags''), {''b.mp3'', ''c.mp3''})"
    by (simp add: process_single_entry_def remove_temporaries_def example_world_bad_tags_def
          example_world_def example_video_def bind_io_def return_io_def os_path_exists_def
          external_def splitext_def Let_def)
  show ?thesis
    unfolding download_audio_def
    by (simp add: av ex bind_io_def pb pc)
qed

text \<open>
  Claim C7, as the code has it. Take an entry whose first requested download has a
  \<open>filepath\<close> that exists. When the sibling \<open>.webp\<close> file exists, \<open>convert_thumbnail\<close> is
  called on it, and an exception it raises leaves \<open>_process_single_entry\<close> before
  \<open>add_metadata\<close> is called. When the conversion returns, or there is no \<open>.webp\<close> file,
  \<open>add_metadata\<close> is called exactly once, with the path, the entry's info dictionary and
  the thumbnail path: what \<open>convert_thumbnail\<close> returned, or \<open>None\<close> without a \<open>.webp\<close>
  file. An exception of \<open>add_metadata\<close> leaves the function. When it returns, the temporary
  thumbnail files are removed, and the function returns the status line made of the done
  prefix, the downloaded path, a full stop and a space, and the result of \<open>add_metadata\<close>,
  unless \<open>os.remove\<close> raises, which leaves the function with no status line.
\<close>

theorem metadata_call_and_status_line:
  assumes "requested_downloads info = Some (d # ds)"
    and "d ''filepath'' = Some downloaded_path"
    and "downloaded_path \<in> fs"
    and "webp = fst (splitext (path_seps w) downloaded_path) @ ''.webp''"
  shows
    "(\<forall>e fs1.
        webp \<in> fs \<and> convert_thumbnail w webp fs = (Inl e, fs1) \<longrightarrow>
          process_single_entry w info fs = ([Convert_thumbnail webp], Inl e, fs1))
     \<and> (\<forall>thumbnail_path fs1 conv.
          (if webp \<in> fs
           then convert_thumbnail w webp fs = (Inr thumbnail_path, fs1)
                \<and> conv = [Convert_thumbnail webp]
           else thumbnail_path = None \<and> fs1 = fs \<and> conv = []) \<longrightarrow>
          (\<forall>e fs2.
              add_metadata w downloaded_path info thumbnail_path fs1 = (Inl e, fs2) \<longrightarrow>
                process_single_entry w info fs
                  = (conv @ [Add_metadata downloaded_path info thumbnail_path], Inl e, fs2))
          \<and> (\<forall>meta_result fs2 evs res fs3.
                add_metadata w downloaded_path info thumbnail_path fs1 = (Inr meta_result, fs2)
                \<and> remove_temporaries w thumbnail_path webp fs2 = (evs, res, fs3) \<longrightarrow>
                  process_single_entry w info fs
                    = (conv @ [Add_metadata downloaded_path info thumbnail_path] @ evs,
                       (case res of
                          Inr u \<Rightarrow> Inr (msg_done @ downloaded_path @ ''. '' @ meta_result)
                        | Inl e \<Rightarrow> Inl e),
                       fs3)
                  \<and> metadata_calls
                        (conv @ [Add_metadata downloaded_path info thumbnail_path] @ evs)
                      = [(downloaded_path, info, thumbnail_path)]))"
proof (intro conjI allI impI)
  fix e fs1
  assume "webp \<in> fs \<and> convert_thumbnail w webp fs = (Inl e, fs1)"
  with assms show "process_single_entry w info fs = ([Convert_thumbnail webp], Inl e, fs1)"
    by (simp add: process_single_entry_def bind_io_def return_io_def os_path_exists_def
          external_def Let_def)
next
  fix thumbnail_path fs1 conv e fs2
  assume "if webp \<in> fs
          then convert_thumbnail w webp fs = (Inr thumbnail_path, fs1)
               \<and> conv = [Convert_thumbnail webp]
          else thumbnail_path = None \<and> fs1 = fs \<and> conv = []"
    and "add_metadata w downloaded_path info thumbnail_path fs1 = (Inl e, fs2)"
  with assms show "process_single_entry w info fs
                  = (conv @ [Add_metadata downloaded_path info thumbnail_path], Inl e, fs2)"
    by (cases "webp \<in> fs")
       (simp_all add: process_single_entry_def bind_io_def return_io_def os_path_exists_def
          external_def Let_def)
next
  fix thumbnail_path fs1 conv meta_result fs2 evs res fs3
  assume c: "if webp \<in> fs
          then convert_thumbnail w webp fs = (Inr thumbnail_path, fs1)
               \<and> conv = [Convert_thumbnail webp]
          else thumbnail_path = None \<and> fs1 = fs \<and> conv = []"
    and a: "add_metadata w downloaded_path info thumbnail_path fs1 = (Inr meta_result, fs2)
            \<and> remove_temporaries w thumbnail_path webp fs2 = (evs, res, fs3)"
  from assms c a show "process_single_entry w info fs
                    = (conv @ [Add_metadata downloaded_path info thumbnail_path] @ evs,
                       (case res of
                          Inr u \<Rightarrow> Inr (msg_done @ downloaded_path @ ''. '' @ meta_result)
                        | Inl e \<Rightarrow> Inl e),
                       fs3)"
    by (cases "webp \<in> fs"; cases res)
       (simp_all add: process_single_entry_def bind_io_def return_io_def os_path_exists_def
          external_def Let_def)
  from a have "metadata_calls evs = []"
    by (auto dest: remove_temporaries_calls)
  with c show "metadata_calls
                        (conv @ [Add_metadata downloaded_path info thumbnail_path] @ evs)
                      = [(downloaded_path, info, thumbnail_path)]"
    by (cases "webp \<in> fs") simp_all
qed


theorem metadata_call_and_status_line_witness:
  "process_single_entry example_world (example_video ''a'') {''a.mp3'', ''a.webp''}
     = ([Convert_thumbnail ''a.webp'']
        @ [Add_metadata ''a.mp3'' (example_video ''a'') (Some ''a.webp.jpg'')]
        @ [Remove ''a.webp.jpg'', Remove ''a.webp''],
        Inr (msg_done @ ''a.mp3'' @ ''. '' @ ''tagged''), {''a.mp3''})
   \<and> metadata_calls
         ([Convert_thumbnail ''a.webp'']
          @ [Add_metadata ''a.mp3'' (example_video ''a'') (Some ''a.webp.jpg'')]
          @ [Remove ''a.webp.jpg'', Remove ''a.webp''])
       = [(''a.mp3'', example_video ''a'', Some ''a.webp.jpg'')]
   \<and> process_single_entry example_world (example_video ''a'') {''a.mp3''}
     = ([] @ [Add_metadata ''a.mp3'' (example_video ''a'') None] @ [],
        Inr (msg_done @ ''a.mp3'' @ ''. '' @ ''tagged''), {''a.mp3''})"
proof -
  have rd: "requested_downloads (example_video ''a'') = Some ([''filepath'' \<mapsto> ''a.mp3''] # [])"
    by (simp add: example_video_def)
  have fp: "[''filepath'' \<mapsto> ''a.mp3''] ''filepath'' = Some ''a.mp3''"
    by simp
  have wp: "''a.webp'' = fst (splitext (path_seps example_world) ''a.mp3'') @ ''.webp''"
    by (simp add: splitext_def example_world_def)
  have m1: "''a.mp3'' \<in> {''a.mp3'', ''a.webp''}" and m2: "''a.mp3'' \<in> {''a.mp3''}"
    by simp_all
  have c1: "if ''a.webp'' \<in> {''a.mp3'', ''a.webp''}
            then convert_thumbnail example_world ''a.webp'' {''a.mp3'', ''a.webp''}
                 = (Inr (Some ''a.webp.jpg''), {''a.webp.jpg'', ''a.mp3'', ''a.webp''})
                 \<and> [Convert_thumbnail ''a.webp''] = [Convert_thumbnail ''a.webp'']
            else Some ''a.webp.jpg'' = None
                 \<and> {''a.webp.jpg'', ''a.mp3'', ''a.webp''} = {''a.mp3'', ''a.webp''}
                 \<and> [Convert_thumbnail ''a.webp''] = []"
    by (simp add: example_world_def)
  have c2: "if ''a.webp'' \<in> {''a.mp3''}
            then convert_thumbnail example_world ''a.webp'' {''a.mp3''} = (Inr None, {''a.mp3''})
                 \<and> [] = [Convert_thumbnail ''a.webp'']
            else None = None \<and> {''a.mp3''} = {''a.mp3''} \<and> [] = []"
    by simp
  have a: "add_metadata example_world ''a.mp3'' (example_video ''a'') t fs = (Inr ''tagged'', fs)"
    for t fs
    by (simp add: example_world_def)
  have r1: "remove_temporaries example_world (Some ''a.webp.jpg'') ''a.webp''
              {''a.webp.jpg'', ''a.mp3'', ''a.webp''}
            = ([Remove ''a.webp.jpg'', Remove ''a.webp''], Inr (), {''a.mp3''})"
    by (simp add: remove_temporaries_def bind_io_def return_io_def os_path_exists_def
          external_def example_world_def insert_Diff_if)
  have r2: "remove_temporaries example_world None ''a.webp'' {''a.mp3''} = ([], Inr (), {''a.mp3''})"
    by (simp add: remove_temporaries_def bind_io_def return_io_def os_path_exists_def)
  note t1 = metadata_call_and_status_line [OF rd fp m1 wp, THEN conjunct2, rule_format,
              OF c1, THEN conjunct2, rule_format, OF conjI [OF a r1]]
  note t2 = metadata_call_and_status_line [OF rd fp m2 wp, THEN conjunct2, rule_format,
              OF c2, THEN conjunct2, rule_format, OF conjI [OF a r2]]
  from t1 t2 show ?thesis
    by simp
qed

text \<open>
  The claim as stated promises the call of \<open>add_metadata\<close> for every entry whose file
  exists. Here the file and a sibling \<open>.webp\<close> exist and the thumbnail converter raises:
  the exception leaves \<open>_process_single_entry\<close>, and \<open>add_metadata\<close> is not called.
\<close>

theorem convert_raises_counterexample:
  "''a.mp3'' \<in> {''a.mp3'', ''a.webp''}
   \<and> process_single_entry example_world_bad_thumbnail (example_video ''a'') {''a.mp3'', ''a.webp''}
     = ([Convert_thumbnail ''a.webp''], Inl (Raised ''cannot identify image file''),
        {''a.mp3'', ''a.webp''})
   \<and> metadata_calls [Convert_thumbnail ''a.webp''] = []"
  by (simp add: process_single_entry_def example_world_bad_thumbnail_def example_world_def
        example_video_def bind_io_def return_io_def os_path_exists_def external_def
        splitext_def Let_def)

text \<open>
  Claim C8. On the empty URL list a run of \<open>_download_all\<close> ends normally with the call of
  the completion callback as its only action: no progress call, no log line, no call of an
  external tool, and the file system untouched. The run does not end in
  \<open>ZeroDivisionError\<close>, although the list length, the divisor of the progress computation,
  is zero: the division sits in the loop body, which is never entered.
\<close>

theorem empty_list_only_completion:
  "\<exists>r. download_all w stop_at self fs [] = Inr r \<and> trace r = [Completion] \<and> files r = fs"
  by (simp add: download_all_def)

text \<open>
  Claim C9. \<open>download_audio\<close> returns the no-ffmpeg message with no action performed and the
  file system untouched exactly when \<open>shutil.which("ffmpeg")\<close> finds nothing. The object's
  \<open>ffmpeg_path\<close> plays no part in this guard, although it is what the download options
  carry as \<open>ffmpeg_location\<close> once the guard is passed: for an object the constructor built
  after its bundled ffmpeg ran and was logged as found, a PATH without ffmpeg still gives
  the message and no download.
\<close>

theorem ffmpeg_guard_ignores_bundled_path:
  "(download_audio w self url fs = ([], Inr msg_no_ffmpeg, fs)) = (which w ''ffmpeg'' = None)
   \<and> (which w ''ffmpeg'' \<noteq> None \<longrightarrow>
        (\<exists>evs res fs'. download_audio w self url fs
            = (Extract_info (make_ydl_opts w self) url # evs, res, fs'))
        \<and> ffmpeg_location (make_ydl_opts w self) = ffmpeg_path self)
   \<and> (\<forall>folder fs0 evs0 made fs1 line.
         init w folder fs0 = (evs0, Inr made, fs1)
         \<and> Log (msg_ffmpeg_found @ line) \<in> set evs0
         \<and> which w ''ffmpeg'' = None
         \<longrightarrow> download_audio w made url fs = ([], Inr msg_no_ffmpeg, fs))"
proof -
  have none: "download_audio w s url fs = ([], Inr msg_no_ffmpeg, fs)"
    if "which w ''ffmpeg'' = None" for s
    using that by (simp add: download_audio_def ffmpeg_available_def return_io_def)
  have some: "\<exists>evs res fs'. download_audio w self url fs
                = (Extract_info (make_ydl_opts w self) url # evs, res, fs')"
    if "which w ''ffmpeg'' \<noteq> None"
    using that
    by (auto simp: download_audio_def ffmpeg_available_def bind_io_def ydl_extract_info_def
          split: prod.splits sum.splits option.splits)
  have loc: "ffmpeg_location (make_ydl_opts w self) = ffmpeg_path self"
    by (simp add: make_ydl_opts_def)
  have iff: "(download_audio w self url fs = ([], Inr msg_no_ffmpeg, fs))
             = (which w ''ffmpeg'' = None)"
  proof (cases "which w ''ffmpeg'' = None")
    case True
    with none [of self] show ?thesis by simp
  next
    case False
    from some [OF False] obtain evs res fs' where
      "download_audio w self url fs = (Extract_info (make_ydl_opts w self) url # evs, res, fs')"
      by blast
    with False show ?thesis by simp
  qed
  from iff some loc none show ?thesis
    by blast
qed

theorem ffmpeg_guard_ignores_bundled_path_witness:
  "which example_world_no_path ''ffmpeg'' = None
   \<and> Log (msg_ffmpeg_found @ ''ffmpeg version 6.0'')
       \<in> set (fst (init example_world_no_path ''out'' {}))
   \<and> download_audio example_world_no_path
         \<lparr> download_folder = ''out'', stop_event = False,
           ffmpeg_path = ''app/bin/ffmpeg.exe'', ffprobe_path = ''app/bin/ffprobe.exe'' \<rparr>
         ''video'' {}
       = ([], Inr msg_no_ffmpeg, {})"
proof -
  have w: "which example_world_no_path ''ffmpeg'' = None"
    by (simp add: example_world_no_path_def)
  have l: "Log (msg_ffmpeg_found @ ''ffmpeg version 6.0'')
             \<in> set (fst (init example_world_no_path ''out'' {}))"
    by (simp add: ex_init)
  from ffmpeg_guard_ignores_bundled_path [of example_world_no_path _ "''video''" "{}"] ex_init w
  have "download_audio example_world_no_path
          \<lparr> download_folder = ''out'', stop_event = False,
            ffmpeg_path = ''app/bin/ffmpeg.exe'', ffprobe_path = ''app/bin/ffprobe.exe'' \<rparr>
          ''video'' {}
        = ([], Inr msg_no_ffmpeg, {})"
    by simp
  with w l show ?thesis
    by simp
qed

text \<open>
  Claim C10. For a hook dictionary with a \<open>status\<close>, \<open>_progress_hook\<close> returns normally: no
  \<open>ValueError\<close> (and no other exception) leaves it. When the status is \<open>downloading\<close> it
  calls the progress callback exactly once, with the float parsed from the \<open>_percent_str\<close>
  field, stripped of surrounding whitespace and with the percent signs removed, or with 0
  when the field is absent or \<open>float\<close> rejects the text; for any other status it calls
  nothing. That \<open>float('0')\<close> is 0, which the absent field relies on, is a fact about the
  builtin and a hypothesis here.
\<close>

theorem progress_hook_total:
  assumes "d ''status'' = Some status"
    and "py_float w ''0'' = Some (Float_val 0)"
  shows "progress_hook w d =
     Inr (if status = ''downloading''
          then [Progress Hook
                  (case d ''_percent_str'' of
                     None \<Rightarrow> Float_val 0
                   | Some s \<Rightarrow>
                       (case py_float w (remove_char CHR ''%'' (strip s)) of
                          Some v \<Rightarrow> v
                        | None \<Rightarrow> Float_val 0))]
          else [])"
  using assms
  by (simp add: progress_hook_def strip_default remove_char_def split: option.splits)

theorem progress_hook_total_witness:
  "progress_hook example_world [''status'' \<mapsto> ''downloading'', ''_percent_str'' \<mapsto> '' 50.0%'']
     = Inr [Progress Hook (Float_val 50)]
   \<and> progress_hook example_world [''status'' \<mapsto> ''downloading'', ''_percent_str'' \<mapsto> ''  N/A%'']
     = Inr [Progress Hook (Float_val 0)]
   \<and> progress_hook example_world [''status'' \<mapsto> ''downloading''] = Inr [Progress Hook (Float_val 0)]
   \<and> progress_hook example_world [''status'' \<mapsto> ''finished''] = Inr []"
proof -
  have z: "py_float example_world ''0'' = Some (Float_val 0)"
    by (simp add: example_world_def)
  have na: "strip ''  N/A%'' = ''N/A%''"
    by (simp add: strip_def lstrip_def rstrip_def py_whitespace_def)
  have a: "progress_hook example_world
             [''status'' \<mapsto> ''downloading'', ''_percent_str'' \<mapsto> '' 50.0%'']
           = Inr [Progress Hook (Float_val 50)]"
    using progress_hook_total [OF _ z,
            of "[''status'' \<mapsto> ''downloading'', ''_percent_str'' \<mapsto> '' 50.0%'']" "''downloading''"]
    by (simp add: strip_example remove_char_def example_world_def)
  have b: "progress_hook example_world
             [''status'' \<mapsto> ''downloading'', ''_percent_str'' \<mapsto> ''  N/A%'']
           = Inr [Progress Hook (Float_val 0)]"
    using progress_hook_total [OF _ z,
            of "[''status'' \<mapsto> ''downloading'', ''_percent_str'' \<mapsto> ''  N/A%'']" "''downloading''"]
    by (simp add: na remove_char_def example_world_def)
  have c: "progress_hook example_world [''status'' \<mapsto> ''downloading'']
           = Inr [Progress Hook (Float_val 0)]"
    using progress_hook_total [OF _ z, of "[''status'' \<mapsto> ''downloading'']" "''downloading''"]
    by simp
  have e: "progress_hook example_world [''status'' \<mapsto> ''finished''] = Inr []"
    using progress_hook_total [OF _ z, of "[''status'' \<mapsto> ''finished'']" "''finished''"]
    by simp
  from a b c e show ?thesis
    by simp
qed

end
